theory Spec2Isabelle
  imports Main "HOL-Library.Sublist"
begin

section \<open>The dashboard's WebSocket client (MCPWebSocketService.ts)\<close>

text \<open>
  The class \<^verbatim>\<open>MCPWebSocketService\<close> is an event-driven object: its methods are called by the
  application, and its handlers (\<^verbatim>\<open>onopen\<close>, \<^verbatim>\<open>onmessage\<close>, \<^verbatim>\<open>onclose\<close>, \<^verbatim>\<open>onerror\<close>,
  the two \<^verbatim>\<open>setTimeout\<close> callbacks) are called by the JavaScript host. Each method and
  handler is a function from the state to the new state and the list of effects it has, in the
  order of the source's statements.

  Objects with identity (promises, sockets, timers, the application's callbacks) are handles.
  A promise is made in two places of the source, \<^verbatim>\<open>connect\<close> and \<^verbatim>\<open>sendRequest\<close>, and its
  handle says where it was made and counts the promises made there; sockets and timers are
  counted in the same way, so two calls of \<^verbatim>\<open>new Promise\<close>, \<^verbatim>\<open>new WebSocket\<close> or
  \<^verbatim>\<open>setTimeout\<close> never return the same object. Only \<^verbatim>\<open>sendRequest\<close> writes to
  \<^verbatim>\<open>pendingRequests\<close> and only its timeout captures its \<^verbatim>\<open>reject\<close>, so the map and that
  timer hold the number of a promise of \<^verbatim>\<open>sendRequest\<close>; the handlers of a socket capture
  \<^verbatim>\<open>resolve\<close> and \<^verbatim>\<open>reject\<close> of the \<^verbatim>\<open>connect\<close> call that made it, so a socket holds the
  number of that promise.

  What the holder of a promise does when it is settled (the application's \<^verbatim>\<open>await\<close>, the
  \<^verbatim>\<open>.catch(console.error)\<close> of the reconnect timer) is outside the class; the effects record
  the calls of \<^verbatim>\<open>resolve\<close> and \<^verbatim>\<open>reject\<close>. A callback of the application is called inside
  the \<^verbatim>\<open>try\<close> block of \<^verbatim>\<open>handleMessage\<close>: what the callback does is outside the class, but
  whether it returns or throws is not, because the \<^verbatim>\<open>catch\<close> clause of the handler runs when
  it throws.

  Request ids are JavaScript numbers counted up from 0 by \<^verbatim>\<open>++this.requestId\<close>; they are
  modelled as natural numbers (a double counts exactly up to \<open>2^53\<close>).
\<close>

subsection \<open>JSON values and JavaScript's reading of them\<close>

datatype json =
    JNull
  | JBool bool
  | JNum int
  | JStr string
  | JArr "json list"
  | JObj "(string \<times> json) list"

text \<open>
  Numbers are integers here: the client compares a number only with the ids it has assigned
  and tests it for zero, and a number with a fraction behaves in both as a negative integer
  does (it is truthy and it is no id).

  What \<^verbatim>\<open>JSON.parse(data)\<close> gives: a value, or the exception it throws.
\<close>

datatype parsed = SyntaxError | Parsed json

text \<open>
  A property read \<^verbatim>\<open>v.k\<close> on a parsed value other than \<^verbatim>\<open>null\<close>: \<open>None\<close> is
  \<^verbatim>\<open>undefined\<close>. Of a key written twice in the text, \<^verbatim>\<open>JSON.parse\<close> keeps the last.
  Numbers, strings, booleans and arrays have none of the properties the client reads.
\<close>

fun js_get :: "json \<Rightarrow> string \<Rightarrow> json option" where
  "js_get (JObj kvs) k = map_of (rev kvs) k"
| "js_get _ k = None"

text \<open>JavaScript's truthiness, as \<^verbatim>\<open>&&\<close>, \<^verbatim>\<open>||\<close> and \<^verbatim>\<open>if\<close> test it.\<close>

fun truthy :: "json option \<Rightarrow> bool" where
  "truthy None = False"
| "truthy (Some JNull) = False"
| "truthy (Some (JBool b)) = b"
| "truthy (Some (JNum n)) = (n \<noteq> 0)"
| "truthy (Some (JStr s)) = (s \<noteq> [])"
| "truthy (Some (JArr xs)) = True"
| "truthy (Some (JObj kvs)) = True"

subsection \<open>Handles, effects and the state\<close>

datatype promise = ConnectPromise nat | RequestPromise nat

type_synonym socket = nat
type_synonym timer = nat
type_synonym callback = nat

datatype readyState = CONNECTING | OPEN | CLOSING | CLOSED

text \<open>The bodies of the two \<^verbatim>\<open>setTimeout\<close> callbacks, with the variables they capture.\<close>

datatype timer_action =
    ReconnectTimer
  | RequestTimeout nat nat

datatype error =
    NotConnected
  | TimeoutError
  | ServerError "json option"
  | TransportError
  | ConstructorError

text \<open>
  \<open>NotConnected\<close> is \<^verbatim>\<open>new Error('WebSocket not connected')\<close>, \<open>TimeoutError\<close> is
  \<^verbatim>\<open>new Error('Request timeout')\<close>, \<open>ServerError v\<close> is
  \<^verbatim>\<open>new Error(message.error.message)\<close> with \<open>v\<close> the value read, \<open>TransportError\<close> the event
  given to \<^verbatim>\<open>onerror\<close>, \<open>ConstructorError\<close> what \<^verbatim>\<open>new WebSocket\<close> throws.
\<close>

datatype effect =
    ConsoleLog string
  | ConsoleLogAttempt nat nat nat
  | ConsoleError string
  | Resolve promise "json option"
  | Reject promise error
  | NewWebSocket socket
  | Send socket json
  | Close socket
  | SetTimeout timer nat timer_action
  | ClearTimeout timer
  | Invoke string callback "json option"

text \<open>
  \<open>ConsoleLogAttempt delay a m\<close> is the line
  \<^verbatim>\<open>Attempting to reconnect in ${delay}ms (attempt ${a}/${m})\<close>.
  \<open>Invoke ev cb v\<close> is the call \<^verbatim>\<open>callback(message.params)\<close> of the callback found under
  the key \<open>ev\<close>.
\<close>

record client =
  ws :: "socket option"
  requestId :: nat
  pendingRequests :: "nat \<rightharpoonup> nat"
  subscriptions :: "string \<rightharpoonup> callback"
  reconnectTimeout :: "timer option"
  maxReconnectAttempts :: nat
  reconnectAttempts :: nat
  url_ok :: bool
  sockets :: "socket \<rightharpoonup> readyState \<times> nat"
  timers :: "timer \<rightharpoonup> nat \<times> timer_action"
  nextConnect :: nat
  nextPromise :: nat
  nextSocket :: socket
  nextTimer :: timer
  callback_throws :: "callback \<Rightarrow> json option \<Rightarrow> bool"

text \<open>
  The first seven fields are the fields the class declares. A pending request
  \<^verbatim>\<open>{ resolve, reject }\<close> is the number of the promise the two functions belong to.
  \<open>url_ok\<close> stands for the constructor's \<^verbatim>\<open>url\<close>: it says whether
  \<^verbatim>\<open>new WebSocket(this.url)\<close> accepts the URL or throws. The last six fields are the host:
  the sockets created so far, each with its \<^verbatim>\<open>readyState\<close> and the promise its handlers
  capture; the timers that are scheduled and not yet fired or cleared, with their delay in
  milliseconds (a timer handle is truthy, so \<^verbatim>\<open>if (this.reconnectTimeout)\<close> asks whether the
  field is null); the numbers of promises made by \<^verbatim>\<open>connect\<close> and by \<^verbatim>\<open>sendRequest\<close>, of sockets
  and of timers created so far. The last field is the application: \<open>callback_throws s cb v\<close>
  says whether the call \<^verbatim>\<open>cb(v)\<close> of its callback \<open>cb\<close> throws an exception. The class never
  writes it.

  \<open>init ok\<close> is the object as the constructor leaves it, in an application whose callbacks
  return; \<open>init_app ok thr\<close> is the same object in an application whose callbacks throw as
  \<open>thr\<close> says. The handler of \<^verbatim>\<open>alerts\<close> in \<^verbatim>\<open>App.tsx\<close>, for one, reads
  \<^verbatim>\<open>alertData.alerts\<close> and so throws when a frame has no \<^verbatim>\<open>params\<close>.
\<close>

definition init :: "bool \<Rightarrow> client" where
  "init ok = \<lparr> ws = None, requestId = 0, pendingRequests = Map.empty,
      subscriptions = Map.empty, reconnectTimeout = None, maxReconnectAttempts = 5,
      reconnectAttempts = 0, url_ok = ok, sockets = Map.empty, timers = Map.empty,
      nextConnect = 0, nextPromise = 0, nextSocket = 0, nextTimer = 0,
      callback_throws = (\<lambda>cb v. False) \<rparr>"

definition init_app :: "bool \<Rightarrow> (callback \<Rightarrow> json option \<Rightarrow> bool) \<Rightarrow> client" where
  "init_app ok thr = (init ok)\<lparr>callback_throws := thr\<rparr>"

subsection \<open>connect and the socket's handlers\<close>

text \<open>\<^verbatim>\<open>connect()\<close> returns the promise \<open>ConnectPromise (nextConnect s)\<close>.\<close>

definition connect :: "client \<Rightarrow> client \<times> effect list" where
  "connect s =
     (let c = nextConnect s; s0 = s\<lparr>nextConnect := c + 1\<rparr> in
      if url_ok s then
        (let w = nextSocket s in
         (s0\<lparr>ws := Some w, sockets := (sockets s)(w \<mapsto> (CONNECTING, c)),
             nextSocket := w + 1\<rparr>,
          [NewWebSocket w]))
      else (s0, [Reject (ConnectPromise c) ConstructorError]))"

definition onopen :: "client \<Rightarrow> nat \<Rightarrow> client \<times> effect list" where
  "onopen s c =
     (s\<lparr>reconnectAttempts := 0\<rparr>,
      [ConsoleLog ''Connected to MCP server'', Resolve (ConnectPromise c) None])"

definition onerror :: "client \<Rightarrow> nat \<Rightarrow> client \<times> effect list" where
  "onerror s c =
     (s, [ConsoleError ''WebSocket error:'', Reject (ConnectPromise c) TransportError])"

definition handleReconnect :: "client \<Rightarrow> client \<times> effect list" where
  "handleReconnect s =
     (if reconnectAttempts s < maxReconnectAttempts s then
        (let a = reconnectAttempts s + 1;
             delay = min (1000 * 2 ^ a) 30000;
             t = nextTimer s in
         (s\<lparr>reconnectAttempts := a, reconnectTimeout := Some t,
            timers := (timers s)(t \<mapsto> (delay, ReconnectTimer)), nextTimer := t + 1\<rparr>,
          [ConsoleLogAttempt delay a (maxReconnectAttempts s),
           SetTimeout t delay ReconnectTimer]))
      else (s, [ConsoleError ''Max reconnection attempts reached'']))"

definition onclose :: "client \<Rightarrow> client \<times> effect list" where
  "onclose s =
     (let (s1, effs) = handleReconnect s in
      (s1, ConsoleLog ''Disconnected from MCP server'' # effs))"

subsection \<open>handleMessage\<close>

text \<open>
  The key of \<^verbatim>\<open>pendingRequests\<close> that a JavaScript value is, if any: the keys are the
  numbers the client has assigned, so a string, a negative number or \<^verbatim>\<open>undefined\<close> is none.
\<close>

fun pending_key :: "json option \<Rightarrow> nat option" where
  "pending_key (Some (JNum n)) = (if 0 \<le> n then Some (nat n) else None)"
| "pending_key _ = None"

fun subscription_key :: "json option \<Rightarrow> string option" where
  "subscription_key (Some (JStr ev)) = Some ev"
| "subscription_key _ = None"

text \<open>\<^verbatim>\<open>message.error.message\<close>, read only when \<^verbatim>\<open>message.error\<close> is truthy.\<close>

fun error_message :: "json option \<Rightarrow> json option" where
  "error_message (Some e) = js_get e ''message''"
| "error_message None = None"

definition handleResponse :: "client \<Rightarrow> json \<Rightarrow> client \<times> effect list" where
  "handleResponse s message =
     (if truthy (js_get message ''id'') then
        (case pending_key (js_get message ''id'') of
           None \<Rightarrow> (s, [])
         | Some i \<Rightarrow>
            (case pendingRequests s i of
               None \<Rightarrow> (s, [])
             | Some p \<Rightarrow>
                (s\<lparr>pendingRequests := (pendingRequests s)(i := None)\<rparr>,
                 [if truthy (js_get message ''error'')
                  then Reject (RequestPromise p)
                         (ServerError (error_message (js_get message ''error'')))
                  else Resolve (RequestPromise p) (js_get message ''result'')])))
      else (s, []))"

text \<open>
  The call \<^verbatim>\<open>callback(message.params)\<close> is the last statement of the \<^verbatim>\<open>try\<close> block: when
  the callback throws, the \<^verbatim>\<open>catch\<close> clause logs
  \<^verbatim>\<open>console.error('Error parsing message:', error)\<close> after the call.
\<close>

definition callback_call :: "client \<Rightarrow> string \<Rightarrow> callback \<Rightarrow> json option \<Rightarrow> effect list" where
  "callback_call s ev cb v =
     Invoke ev cb v #
     (if callback_throws s cb v then [ConsoleError ''Error parsing message:''] else [])"

text \<open>The second \<^verbatim>\<open>if\<close> of the handler.\<close>

definition handleNotification :: "client \<Rightarrow> json \<Rightarrow> effect list" where
  "handleNotification s message =
     (if truthy (js_get message ''method'') then
        (case subscription_key (js_get message ''method'') of
           None \<Rightarrow> []
         | Some ev \<Rightarrow>
            (case subscriptions s ev of
               None \<Rightarrow> []
             | Some cb \<Rightarrow> callback_call s ev cb (js_get message ''params'')))
      else [])"

text \<open>
  The \<^verbatim>\<open>try\<close> block catches the exception of \<^verbatim>\<open>JSON.parse\<close>, the \<^verbatim>\<open>TypeError\<close> of
  \<^verbatim>\<open>message.id\<close> when the text is \<^verbatim>\<open>null\<close>, and the exception of the callback. In all
  three the \<^verbatim>\<open>catch\<close> clause writes the same line to the console. The response part comes
  before the callback and calls only \<^verbatim>\<open>resolve\<close> or \<^verbatim>\<open>reject\<close>, which do not throw, so a
  throwing callback undoes nothing: the entry is deleted and the promise settled by then.
\<close>

definition handleMessage :: "client \<Rightarrow> parsed \<Rightarrow> client \<times> effect list" where
  "handleMessage s data =
     (case data of
        SyntaxError \<Rightarrow> (s, [ConsoleError ''Error parsing message:''])
      | Parsed JNull \<Rightarrow> (s, [ConsoleError ''Error parsing message:''])
      | Parsed message \<Rightarrow>
          (let (s1, effs) = handleResponse s message in
           (s1, effs @ handleNotification s1 message)))"

subsection \<open>sendRequest and the methods built on it\<close>

text \<open>\<^verbatim>\<open>w.readyState\<close> of a socket the host has created.\<close>

definition readyState_of :: "client \<Rightarrow> socket \<Rightarrow> readyState option" where
  "readyState_of s w = map_option fst (sockets s w)"

definition isConnected :: "client \<Rightarrow> bool" where
  "isConnected s =
     (case ws s of
        None \<Rightarrow> False
      | Some w \<Rightarrow> readyState_of s w = Some OPEN)"

definition request :: "nat \<Rightarrow> string \<Rightarrow> json option \<Rightarrow> json" where
  "request i method params =
     JObj [(''jsonrpc'', JStr ''2.0''), (''id'', JNum (int i)), (''method'', JStr method),
           (''params'', (case params of
                           Some v \<Rightarrow> if truthy params then v else JObj []
                         | None \<Rightarrow> JObj []))]"

text \<open>\<^verbatim>\<open>sendRequest(method, params)\<close> returns the promise \<open>RequestPromise (nextPromise s)\<close>.\<close>

definition sendRequest :: "client \<Rightarrow> string \<Rightarrow> json option \<Rightarrow> client \<times> effect list" where
  "sendRequest s method params =
     (let p = nextPromise s; s0 = s\<lparr>nextPromise := p + 1\<rparr> in
      case ws s of
        None \<Rightarrow> (s0, [Reject (RequestPromise p) NotConnected])
      | Some w \<Rightarrow>
         (if readyState_of s w \<noteq> Some OPEN then (s0, [Reject (RequestPromise p) NotConnected])
          else
            (let i = requestId s + 1; t = nextTimer s in
             (s0\<lparr>requestId := i, pendingRequests := (pendingRequests s)(i \<mapsto> p),
                 timers := (timers s)(t \<mapsto> (10000, RequestTimeout i p)),
                 nextTimer := t + 1\<rparr>,
              [Send w (request i method params),
               SetTimeout t 10000 (RequestTimeout i p)]))))"

text \<open>The callback of the request's \<^verbatim>\<open>setTimeout\<close>, with the \<open>id\<close> and \<open>reject\<close> it captured.\<close>

definition requestTimeout :: "client \<Rightarrow> nat \<Rightarrow> nat \<Rightarrow> client \<times> effect list" where
  "requestTimeout s i p =
     (if pendingRequests s i \<noteq> None then
        (s\<lparr>pendingRequests := (pendingRequests s)(i := None)\<rparr>,
         [Reject (RequestPromise p) TimeoutError])
      else (s, []))"

definition getSystemStats :: "client \<Rightarrow> client \<times> effect list" where
  "getSystemStats s = sendRequest s ''get_system_stats'' None"

text \<open>
  An argument left out is \<open>None\<close>; a parameter with a default takes it then, and a property
  whose value is \<^verbatim>\<open>undefined\<close> is not written by \<^verbatim>\<open>JSON.stringify\<close>.
\<close>

definition getProcesses :: "client \<Rightarrow> int option \<Rightarrow> string option \<Rightarrow> client \<times> effect list" where
  "getProcesses s limit sortBy =
     sendRequest s ''get_processes''
       (Some (JObj [(''limit'', JNum (case limit of None \<Rightarrow> 10 | Some n \<Rightarrow> n)),
                    (''sort_by'', JStr (case sortBy of None \<Rightarrow> ''cpu'' | Some x \<Rightarrow> x))]))"

definition getLogs ::
  "client \<Rightarrow> int option \<Rightarrow> string option \<Rightarrow> string option \<Rightarrow> int option \<Rightarrow> client \<times> effect list"
where
  "getLogs s limit levelFilter searchTerm hoursBack =
     sendRequest s ''get_logs''
       (Some (JObj ([(''limit'', JNum (case limit of None \<Rightarrow> 100 | Some n \<Rightarrow> n))]
                    @ (case levelFilter of None \<Rightarrow> [] | Some x \<Rightarrow> [(''level_filter'', JStr x)])
                    @ (case searchTerm of None \<Rightarrow> [] | Some x \<Rightarrow> [(''search_term'', JStr x)])
                    @ [(''hours_back'', JNum (case hoursBack of None \<Rightarrow> 24 | Some n \<Rightarrow> n))])))"

definition ping :: "client \<Rightarrow> client \<times> effect list" where
  "ping s = sendRequest s ''ping'' None"

definition getServerInfo :: "client \<Rightarrow> client \<times> effect list" where
  "getServerInfo s = sendRequest s ''get_server_info'' None"

definition subscribeToSystemStats :: "client \<Rightarrow> callback \<Rightarrow> client \<times> effect list" where
  "subscribeToSystemStats s cb =
     sendRequest (s\<lparr>subscriptions := (subscriptions s)(''system_stats'' \<mapsto> cb)\<rparr>)
       ''subscribe_system_stats'' None"

definition subscribeToAlerts :: "client \<Rightarrow> callback \<Rightarrow> client \<times> effect list" where
  "subscribeToAlerts s cb =
     sendRequest (s\<lparr>subscriptions := (subscriptions s)(''alerts'' \<mapsto> cb)\<rparr>)
       ''subscribe_alerts'' None"

definition subscribeToLogs :: "client \<Rightarrow> callback \<Rightarrow> client \<times> effect list" where
  "subscribeToLogs s cb =
     sendRequest (s\<lparr>subscriptions := (subscriptions s)(''logs'' \<mapsto> cb)\<rparr>)
       ''subscribe_logs'' None"

definition unsubscribeFromSystemStats :: "client \<Rightarrow> client \<times> effect list" where
  "unsubscribeFromSystemStats s =
     sendRequest (s\<lparr>subscriptions := (subscriptions s)(''system_stats'' := None)\<rparr>)
       ''unsubscribe_system_stats'' None"

definition unsubscribeFromAlerts :: "client \<Rightarrow> client \<times> effect list" where
  "unsubscribeFromAlerts s =
     sendRequest (s\<lparr>subscriptions := (subscriptions s)(''alerts'' := None)\<rparr>)
       ''unsubscribe_alerts'' None"

definition unsubscribeFromLogs :: "client \<Rightarrow> client \<times> effect list" where
  "unsubscribeFromLogs s =
     sendRequest (s\<lparr>subscriptions := (subscriptions s)(''logs'' := None)\<rparr>)
       ''unsubscribe_logs'' None"

subsection \<open>disconnect\<close>

text \<open>\<^verbatim>\<open>ws.close()\<close> starts the closing handshake of a socket that is not yet closing.\<close>

fun closing :: "readyState \<times> nat \<Rightarrow> readyState \<times> nat" where
  "closing (CONNECTING, c) = (CLOSING, c)"
| "closing (OPEN, c) = (CLOSING, c)"
| "closing (st, c) = (st, c)"

definition disconnect :: "client \<Rightarrow> client \<times> effect list" where
  "disconnect s =
     (let (s1, e1) =
            (case reconnectTimeout s of
               Some t \<Rightarrow> (s\<lparr>timers := (timers s)(t := None), reconnectTimeout := None\<rparr>,
                          [ClearTimeout t])
             | None \<Rightarrow> (s, []));
          s2 = s1\<lparr>subscriptions := Map.empty, pendingRequests := Map.empty\<rparr> in
      case ws s2 of
        Some w \<Rightarrow> (s2\<lparr>sockets := (sockets s2)(w := map_option closing (sockets s2 w)),
                       ws := None\<rparr>,
                   e1 @ [Close w])
      | None \<Rightarrow> (s2, e1))"

subsection \<open>Events\<close>

text \<open>
  What can happen to the client: a call of one of its public methods, an event of one of the
  sockets it created, or one of its timers firing. The host delivers \<^verbatim>\<open>open\<close> to a socket
  that is connecting, \<^verbatim>\<open>message\<close> to one that is open, \<^verbatim>\<open>error\<close> and \<^verbatim>\<open>close\<close> to one
  that is not closed, and fires a timer that is scheduled; an event it cannot deliver changes
  nothing. The reconnect timer's callback is \<^verbatim>\<open>this.connect().catch(console.error)\<close>.
\<close>

datatype event =
    CallConnect
  | CallDisconnect
  | CallGetSystemStats
  | CallGetProcesses "int option" "string option"
  | CallGetLogs "int option" "string option" "string option" "int option"
  | CallPing
  | CallGetServerInfo
  | CallSubscribeToSystemStats callback
  | CallSubscribeToAlerts callback
  | CallSubscribeToLogs callback
  | CallUnsubscribeFromSystemStats
  | CallUnsubscribeFromAlerts
  | CallUnsubscribeFromLogs
  | SocketOpen socket
  | SocketMessage socket parsed
  | SocketError socket
  | SocketClose socket
  | TimerFires timer

definition set_readyState :: "client \<Rightarrow> socket \<Rightarrow> readyState \<Rightarrow> nat \<Rightarrow> client" where
  "set_readyState s w st c = s\<lparr>sockets := (sockets s)(w \<mapsto> (st, c))\<rparr>"

fun step :: "client \<Rightarrow> event \<Rightarrow> client \<times> effect list" where
  "step s CallConnect = connect s"
| "step s CallDisconnect = disconnect s"
| "step s CallGetSystemStats = getSystemStats s"
| "step s (CallGetProcesses limit sortBy) = getProcesses s limit sortBy"
| "step s (CallGetLogs limit levelFilter searchTerm hoursBack) =
     getLogs s limit levelFilter searchTerm hoursBack"
| "step s CallPing = ping s"
| "step s CallGetServerInfo = getServerInfo s"
| "step s (CallSubscribeToSystemStats cb) = subscribeToSystemStats s cb"
| "step s (CallSubscribeToAlerts cb) = subscribeToAlerts s cb"
| "step s (CallSubscribeToLogs cb) = subscribeToLogs s cb"
| "step s CallUnsubscribeFromSystemStats = unsubscribeFromSystemStats s"
| "step s CallUnsubscribeFromAlerts = unsubscribeFromAlerts s"
| "step s CallUnsubscribeFromLogs = unsubscribeFromLogs s"
| "step s (SocketOpen w) =
     (case sockets s w of
        Some (CONNECTING, c) \<Rightarrow> onopen (set_readyState s w OPEN c) c
      | _ \<Rightarrow> (s, []))"
| "step s (SocketMessage w data) =
     (case sockets s w of
        Some (OPEN, c) \<Rightarrow> handleMessage s data
      | _ \<Rightarrow> (s, []))"
| "step s (SocketError w) =
     (case sockets s w of
        None \<Rightarrow> (s, [])
      | Some (CLOSED, c) \<Rightarrow> (s, [])
      | Some (st, c) \<Rightarrow> onerror s c)"
| "step s (SocketClose w) =
     (case sockets s w of
        None \<Rightarrow> (s, [])
      | Some (CLOSED, c) \<Rightarrow> (s, [])
      | Some (st, c) \<Rightarrow> onclose (set_readyState s w CLOSED c))"
| "step s (TimerFires t) =
     (case timers s t of
        None \<Rightarrow> (s, [])
      | Some (d, ReconnectTimer) \<Rightarrow> connect (s\<lparr>timers := (timers s)(t := None)\<rparr>)
      | Some (d, RequestTimeout i p) \<Rightarrow>
          requestTimeout (s\<lparr>timers := (timers s)(t := None)\<rparr>) i p)"

fun run :: "client \<Rightarrow> event list \<Rightarrow> client \<times> effect list" where
  "run s [] = (s, [])"
| "run s (e # es) =
     (let (s1, effs1) = step s e; (s2, effs2) = run s1 es in (s2, effs1 @ effs2))"

subsection \<open>Reading a trace of effects\<close>

text \<open>A call of \<^verbatim>\<open>resolve\<close> or \<^verbatim>\<open>reject\<close>, of any promise and of a given one.\<close>

fun is_settle :: "effect \<Rightarrow> bool" where
  "is_settle (Resolve q v) = True"
| "is_settle (Reject q x) = True"
| "is_settle _ = False"

fun settles :: "promise \<Rightarrow> effect \<Rightarrow> bool" where
  "settles p (Resolve q v) = (p = q)"
| "settles p (Reject q x) = (p = q)"
| "settles p _ = False"

fun is_send :: "effect \<Rightarrow> bool" where
  "is_send (Send w frame) = True"
| "is_send _ = False"

fun is_new_socket :: "effect \<Rightarrow> bool" where
  "is_new_socket (NewWebSocket w) = True"
| "is_new_socket _ = False"

text \<open>The promise of a request is settled.\<close>

fun settles_request :: "effect \<Rightarrow> bool" where
  "settles_request (Resolve (RequestPromise p) v) = True"
| "settles_request (Reject (RequestPromise p) x) = True"
| "settles_request _ = False"

fun is_invoke :: "effect \<Rightarrow> bool" where
  "is_invoke (Invoke ev cb v) = True"
| "is_invoke _ = False"

fun invokes :: "string \<Rightarrow> effect \<Rightarrow> bool" where
  "invokes ev (Invoke ev' cb v) = (ev = ev')"
| "invokes ev _ = False"

text \<open>The id written in a frame the client sends.\<close>

fun sent_id :: "effect \<Rightarrow> nat option" where
  "sent_id (Send w frame) = pending_key (js_get frame ''id'')"
| "sent_id _ = None"

text \<open>The delays of the reconnect attempts a trace schedules, in order.\<close>

fun reconnect_delays :: "effect list \<Rightarrow> nat list" where
  "reconnect_delays [] = []"
| "reconnect_delays (SetTimeout t d ReconnectTimer # effs) = d # reconnect_delays effs"
| "reconnect_delays (x # effs) = reconnect_delays effs"

text \<open>
  What reaches the application: a promise it may hold is settled, or one of its callbacks is
  called. The console is not the application.
\<close>

fun reaches_application :: "effect \<Rightarrow> bool" where
  "reaches_application (Resolve q v) = True"
| "reaches_application (Reject q x) = True"
| "reaches_application (Invoke ev cb v) = True"
| "reaches_application _ = False"

text \<open>Kinds of event: the calls under the source's two headings, and the others.\<close>

fun is_api_method :: "event \<Rightarrow> bool" where
  "is_api_method CallGetSystemStats = True"
| "is_api_method (CallGetProcesses limit sortBy) = True"
| "is_api_method (CallGetLogs limit levelFilter searchTerm hoursBack) = True"
| "is_api_method CallPing = True"
| "is_api_method CallGetServerInfo = True"
| "is_api_method _ = False"

fun is_subscription_method :: "event \<Rightarrow> bool" where
  "is_subscription_method (CallSubscribeToSystemStats cb) = True"
| "is_subscription_method (CallSubscribeToAlerts cb) = True"
| "is_subscription_method (CallSubscribeToLogs cb) = True"
| "is_subscription_method CallUnsubscribeFromSystemStats = True"
| "is_subscription_method CallUnsubscribeFromAlerts = True"
| "is_subscription_method CallUnsubscribeFromLogs = True"
| "is_subscription_method _ = False"

fun subscribes_to :: "string \<Rightarrow> event \<Rightarrow> bool" where
  "subscribes_to ev (CallSubscribeToSystemStats cb) = (ev = ''system_stats'')"
| "subscribes_to ev (CallSubscribeToAlerts cb) = (ev = ''alerts'')"
| "subscribes_to ev (CallSubscribeToLogs cb) = (ev = ''logs'')"
| "subscribes_to ev _ = False"

fun is_open :: "event \<Rightarrow> bool" where
  "is_open (SocketOpen w) = True"
| "is_open _ = False"



fun is_call_connect :: "event \<Rightarrow> bool" where
  "is_call_connect CallConnect = True"
| "is_call_connect _ = False"

text \<open>
  The events of a reconnect: an event of a socket, or the reconnect timer firing. They are told
  apart from the application's calls, from frames and from request timeouts.
\<close>

fun is_reconnect_event :: "client \<Rightarrow> event \<Rightarrow> bool" where
  "is_reconnect_event s (SocketOpen w) = True"
| "is_reconnect_event s (SocketError w) = True"
| "is_reconnect_event s (SocketClose w) = True"
| "is_reconnect_event s (TimerFires t) =
     (case timers s t of Some (d, ReconnectTimer) \<Rightarrow> True | _ \<Rightarrow> False)"
| "is_reconnect_event s _ = False"

text \<open>
  Five reconnects in a row that fail, after the first socket was open: each time the socket
  closes, the reconnect timer fires and the new socket reports an error. The close of the sixth
  socket is left to the caller.
\<close>

definition five_failures :: "event list" where
  "five_failures =
     [SocketClose 0, TimerFires 0, SocketError 1,
      SocketClose 1, TimerFires 1, SocketError 2,
      SocketClose 2, TimerFires 2, SocketError 3,
      SocketClose 3, TimerFires 3, SocketError 4,
      SocketClose 4, TimerFires 4, SocketError 5]"

subsection \<open>The invariant of the states the client can reach\<close>

text \<open>
  Every pending request has an id the counter has passed and a promise that was made, its
  10 second timer is scheduled, and no two requests share a promise. Every request timer holds
  the id and the promise of one request; if that id is still pending, it is pending with that
  promise. The keys of \<^verbatim>\<open>subscriptions\<close> are the three event names the class writes.
\<close>

definition pending_ok :: "client \<Rightarrow> bool" where
  "pending_ok s \<longleftrightarrow>
     (\<forall>i p. pendingRequests s i = Some p \<longrightarrow>
        0 < i \<and> i \<le> requestId s \<and> p < nextPromise s \<and>
        (\<exists>t. timers s t = Some (10000, RequestTimeout i p)) \<and>
        (\<forall>j. pendingRequests s j = Some p \<longrightarrow> j = i))"

definition timers_ok :: "client \<Rightarrow> bool" where
  "timers_ok s \<longleftrightarrow>
     (\<forall>t x. timers s t = Some x \<longrightarrow> t < nextTimer s) \<and>
     (\<forall>t d i p. timers s t = Some (d, RequestTimeout i p) \<longrightarrow>
           d = 10000 \<and> i \<le> requestId s \<and> p < nextPromise s \<and>
           (\<forall>j. pendingRequests s j = Some p \<longrightarrow> j = i) \<and>
           (\<forall>q. pendingRequests s i = Some q \<longrightarrow> q = p))"

definition subscriptions_ok :: "client \<Rightarrow> bool" where
  "subscriptions_ok s \<longleftrightarrow>
     (\<forall>ev cb. subscriptions s ev = Some cb \<longrightarrow>
        ev = ''system_stats'' \<or> ev = ''alerts'' \<or> ev = ''logs'')"

definition inv :: "client \<Rightarrow> bool" where
  "inv s \<longleftrightarrow> pending_ok s \<and> timers_ok s \<and> subscriptions_ok s"

text \<open>
  The client has given up reconnecting: the attempts are used up and no reconnect timer is
  scheduled.
\<close>

definition given_up :: "client \<Rightarrow> bool" where
  "given_up s \<longleftrightarrow>
     reconnectAttempts s = maxReconnectAttempts s \<and>
     (\<forall>t d. timers s t \<noteq> Some (d, ReconnectTimer))"

text \<open>
  A request that is over: its id is not pending and the counter has passed it, its promise is
  in no pending entry, and the timers that captured the promise find their id not pending.
\<close>

definition retired :: "nat \<Rightarrow> nat \<Rightarrow> client \<Rightarrow> bool" where
  "retired i p s \<longleftrightarrow>
     p < nextPromise s \<and> i \<le> requestId s \<and> pendingRequests s i = None \<and>
     (\<forall>j. pendingRequests s j \<noteq> Some p) \<and>
     (\<forall>t d j. timers s t = Some (d, RequestTimeout j p) \<longrightarrow>
        pendingRequests s j = None \<and> j \<le> requestId s)"

section \<open>The invariant holds in every reachable state\<close>

lemma pending_okI:
  assumes "\<And>i p. pendingRequests s i = Some p \<Longrightarrow>
             0 < i \<and> i \<le> requestId s \<and> p < nextPromise s"
    and "\<And>i p. pendingRequests s i = Some p \<Longrightarrow>
             \<exists>t. timers s t = Some (10000, RequestTimeout i p)"
    and "\<And>i j p. pendingRequests s i = Some p \<Longrightarrow> pendingRequests s j = Some p \<Longrightarrow> j = i"
  shows "pending_ok s"
  unfolding pending_ok_def
proof (intro allI impI conjI)
  fix i p assume a: "pendingRequests s i = Some p"
  from assms(1) [OF a] show "0 < i" "i \<le> requestId s" "p < nextPromise s" by simp_all
  from assms(2) [OF a] show "\<exists>t. timers s t = Some (10000, RequestTimeout i p)" .
  fix j assume "pendingRequests s j = Some p"
  from assms(3) [OF a this] show "j = i" .
qed

lemma pending_ok_bounds:
  "pending_ok s \<Longrightarrow> pendingRequests s i = Some p \<Longrightarrow>
     0 < i \<and> i \<le> requestId s \<and> p < nextPromise s"
  by (simp add: pending_ok_def)

lemma pending_ok_timer:
  "pending_ok s \<Longrightarrow> pendingRequests s i = Some p \<Longrightarrow>
     \<exists>t. timers s t = Some (10000, RequestTimeout i p)"
  by (simp add: pending_ok_def)

lemma pending_ok_inj:
  "pending_ok s \<Longrightarrow> pendingRequests s i = Some p \<Longrightarrow> pendingRequests s j = Some p \<Longrightarrow> j = i"
  by (simp add: pending_ok_def)

lemma timers_okI:
  assumes "\<And>t x. timers s t = Some x \<Longrightarrow> t < nextTimer s"
    and "\<And>t d i p. timers s t = Some (d, RequestTimeout i p) \<Longrightarrow>
           d = 10000 \<and> i \<le> requestId s \<and> p < nextPromise s"
    and "\<And>t d i p j. timers s t = Some (d, RequestTimeout i p) \<Longrightarrow>
           pendingRequests s j = Some p \<Longrightarrow> j = i"
    and "\<And>t d i p q. timers s t = Some (d, RequestTimeout i p) \<Longrightarrow>
           pendingRequests s i = Some q \<Longrightarrow> q = p"
  shows "timers_ok s"
  unfolding timers_ok_def
proof (intro allI impI conjI)
  fix t x assume "timers s t = Some x"
  from assms(1) [OF this] show "t < nextTimer s" .
next
  fix t d i p assume a: "timers s t = Some (d, RequestTimeout i p)"
  from assms(2) [OF a] show "d = 10000" "i \<le> requestId s" "p < nextPromise s" by simp_all
  { fix j assume "pendingRequests s j = Some p"
    from assms(3) [OF a this] show "j = i" . }
  { fix q assume "pendingRequests s i = Some q"
    from assms(4) [OF a this] show "q = p" . }
qed

lemma timers_ok_fresh: "timers_ok s \<Longrightarrow> timers s t = Some x \<Longrightarrow> t < nextTimer s"
  by (simp add: timers_ok_def)

lemma timers_ok_bounds:
  "timers_ok s \<Longrightarrow> timers s t = Some (d, RequestTimeout i p) \<Longrightarrow>
     d = 10000 \<and> i \<le> requestId s \<and> p < nextPromise s"
  by (simp add: timers_ok_def)

lemma timers_ok_promise:
  "timers_ok s \<Longrightarrow> timers s t = Some (d, RequestTimeout i p) \<Longrightarrow>
     pendingRequests s j = Some p \<Longrightarrow> j = i"
  by (simp add: timers_ok_def)

lemma timers_ok_id:
  "timers_ok s \<Longrightarrow> timers s t = Some (d, RequestTimeout i p) \<Longrightarrow>
     pendingRequests s i = Some q \<Longrightarrow> q = p"
  by (simp add: timers_ok_def)

lemma timers_ok_next: "timers_ok s \<Longrightarrow> timers s (nextTimer s) = None"
  using timers_ok_fresh [of s "nextTimer s"] by (cases "timers s (nextTimer s)") auto

text \<open>Requests and timers only go away, counters only grow.\<close>

lemma pending_ok_shrink:
  assumes P: "pending_ok s"
    and pe: "\<And>i p. pendingRequests s' i = Some p \<Longrightarrow> pendingRequests s i = Some p"
    and sv: "\<And>i p t. pendingRequests s' i = Some p \<Longrightarrow>
               timers s t = Some (10000, RequestTimeout i p) \<Longrightarrow>
               timers s' t = Some (10000, RequestTimeout i p)"
    and r: "requestId s \<le> requestId s'" and n: "nextPromise s \<le> nextPromise s'"
  shows "pending_ok s'"
proof (rule pending_okI)
  fix i p assume a: "pendingRequests s' i = Some p"
  from pending_ok_bounds [OF P pe [OF a]] r n
  show "0 < i \<and> i \<le> requestId s' \<and> p < nextPromise s'" by simp
  from pending_ok_timer [OF P pe [OF a]] obtain t
    where "timers s t = Some (10000, RequestTimeout i p)" by blast
  from sv [OF a this] show "\<exists>t. timers s' t = Some (10000, RequestTimeout i p)" by blast
next
  fix i j p assume "pendingRequests s' i = Some p" "pendingRequests s' j = Some p"
  then show "j = i" using pending_ok_inj [OF P pe pe] by blast
qed

lemma timers_ok_shrink:
  assumes T: "timers_ok s"
    and pe: "\<And>i p. pendingRequests s' i = Some p \<Longrightarrow> pendingRequests s i = Some p"
    and te: "\<And>t d i p. timers s' t = Some (d, RequestTimeout i p) \<Longrightarrow>
               timers s t = Some (d, RequestTimeout i p)"
    and tf: "\<And>t x. timers s' t = Some x \<Longrightarrow> t < nextTimer s'"
    and r: "requestId s \<le> requestId s'" and n: "nextPromise s \<le> nextPromise s'"
  shows "timers_ok s'"
proof (rule timers_okI)
  fix t x assume "timers s' t = Some x"
  from tf [OF this] show "t < nextTimer s'" .
next
  fix t d i p assume a: "timers s' t = Some (d, RequestTimeout i p)"
  from timers_ok_bounds [OF T te [OF a]] r n
  show "d = 10000 \<and> i \<le> requestId s' \<and> p < nextPromise s'" by simp
next
  fix t d i p j assume "timers s' t = Some (d, RequestTimeout i p)" "pendingRequests s' j = Some p"
  then show "j = i" using timers_ok_promise [OF T te pe] by blast
next
  fix t d i p q assume "timers s' t = Some (d, RequestTimeout i p)" "pendingRequests s' i = Some q"
  then show "q = p" using timers_ok_id [OF T te pe] by blast
qed


text \<open>A new request, as \<open>sendRequest\<close> registers it.\<close>

lemma pending_ok_fresh_promise: "pending_ok s \<Longrightarrow> pendingRequests s j \<noteq> Some (nextPromise s)"
  using pending_ok_bounds [of s j "nextPromise s"] by auto


lemma timers_ok_fresh_promise:
  "timers_ok s \<Longrightarrow> timers s u \<noteq> Some (d, RequestTimeout i (nextPromise s))"
  using timers_ok_bounds [of s u d i "nextPromise s"] by auto

lemma timers_ok_fresh_id:
  "timers_ok s \<Longrightarrow> timers s u \<noteq> Some (d, RequestTimeout (Suc (requestId s)) p)"
  using timers_ok_bounds [of s u d "Suc (requestId s)" p] by auto

lemma pending_ok_add:
  assumes P: "pending_ok s" and T: "timers_ok s"
    and r: "requestId s' = Suc (requestId s)"
    and n: "nextPromise s' = Suc (nextPromise s)"
    and p: "pendingRequests s' = (pendingRequests s)(Suc (requestId s) \<mapsto> nextPromise s)"
    and t: "timers s' =
       (timers s)(nextTimer s \<mapsto> (10000, RequestTimeout (Suc (requestId s)) (nextPromise s)))"
  shows "pending_ok s'"
proof (rule pending_okI)
  fix i q assume a: "pendingRequests s' i = Some q"
  have c: "i = Suc (requestId s) \<and> q = nextPromise s \<or> pendingRequests s i = Some q"
    using a unfolding p by (cases "i = Suc (requestId s)") simp_all
  from c show "0 < i \<and> i \<le> requestId s' \<and> q < nextPromise s'"
  proof (elim disjE conjE)
    assume "i = Suc (requestId s)" "q = nextPromise s"
    then show ?thesis using r n by simp
  next
    assume "pendingRequests s i = Some q"
    from pending_ok_bounds [OF P this] show ?thesis using r n by simp
  qed
  from c show "\<exists>u. timers s' u = Some (10000, RequestTimeout i q)"
  proof (elim disjE conjE)
    assume "i = Suc (requestId s)" "q = nextPromise s"
    then have "timers s' (nextTimer s) = Some (10000, RequestTimeout i q)"
      unfolding t by simp
    then show ?thesis by blast
  next
    assume "pendingRequests s i = Some q"
    from pending_ok_timer [OF P this] obtain u
      where u: "timers s u = Some (10000, RequestTimeout i q)" by blast
    then have "u \<noteq> nextTimer s" using timers_ok_next [OF T] by auto
    then have "timers s' u = Some (10000, RequestTimeout i q)" using u unfolding t by simp
    then show ?thesis by blast
  qed
next
  fix i j q assume a: "pendingRequests s' i = Some q" and b: "pendingRequests s' j = Some q"
  show "j = i"
  proof (cases "q = nextPromise s")
    case True
    have "i = Suc (requestId s)"
      using a True pending_ok_fresh_promise [OF P, of i] unfolding p
      by (cases "i = Suc (requestId s)") simp_all
    moreover have "j = Suc (requestId s)"
      using b True pending_ok_fresh_promise [OF P, of j] unfolding p
      by (cases "j = Suc (requestId s)") simp_all
    ultimately show ?thesis by simp
  next
    case False
    have "pendingRequests s i = Some q"
      using a False unfolding p by (cases "i = Suc (requestId s)") simp_all
    moreover have "pendingRequests s j = Some q"
      using b False unfolding p by (cases "j = Suc (requestId s)") simp_all
    ultimately show ?thesis by (rule pending_ok_inj [OF P])
  qed
qed

lemma timers_ok_add:
  assumes P: "pending_ok s" and T: "timers_ok s"
    and r: "requestId s' = Suc (requestId s)"
    and n: "nextPromise s' = Suc (nextPromise s)"
    and p: "pendingRequests s' = (pendingRequests s)(Suc (requestId s) \<mapsto> nextPromise s)"
    and t: "timers s' =
       (timers s)(nextTimer s \<mapsto> (10000, RequestTimeout (Suc (requestId s)) (nextPromise s)))"
    and nt: "nextTimer s' = Suc (nextTimer s)"
  shows "timers_ok s'"
proof -
  have c: "d = 10000 \<and> i = Suc (requestId s) \<and> q = nextPromise s
           \<or> timers s u = Some (d, RequestTimeout i q)"
    if "timers s' u = Some (d, RequestTimeout i q)" for u d i q
    using that unfolding t by (cases "u = nextTimer s") simp_all
  show ?thesis
  proof (rule timers_okI)
    fix u x assume "timers s' u = Some x"
    then have "u = nextTimer s \<or> timers s u = Some x"
      unfolding t by (cases "u = nextTimer s") simp_all
    then show "u < nextTimer s'" using timers_ok_fresh [OF T, of u x] nt by auto
  next
    fix u d i q assume "timers s' u = Some (d, RequestTimeout i q)"
    from c [OF this] show "d = 10000 \<and> i \<le> requestId s' \<and> q < nextPromise s'"
    proof (elim disjE conjE)
      assume "d = 10000" "i = Suc (requestId s)" "q = nextPromise s"
      then show ?thesis using r n by simp
    next
      assume "timers s u = Some (d, RequestTimeout i q)"
      from timers_ok_bounds [OF T this] show ?thesis using r n by simp
    qed
  next
    fix u d i q j
    assume a: "timers s' u = Some (d, RequestTimeout i q)" and b: "pendingRequests s' j = Some q"
    from c [OF a] show "j = i"
    proof (elim disjE conjE)
      assume e: "i = Suc (requestId s)" "q = nextPromise s"
      then show ?thesis
        using b pending_ok_fresh_promise [OF P, of j] unfolding p
        by (cases "j = Suc (requestId s)") simp_all
    next
      assume old: "timers s u = Some (d, RequestTimeout i q)"
      from timers_ok_bounds [OF T old] have "q \<noteq> nextPromise s" by simp
      then have "pendingRequests s j = Some q"
        using b unfolding p by (cases "j = Suc (requestId s)") simp_all
      from timers_ok_promise [OF T old this] show ?thesis .
    qed
  next
    fix u d i q q'
    assume a: "timers s' u = Some (d, RequestTimeout i q)" and b: "pendingRequests s' i = Some q'"
    from c [OF a] show "q' = q"
    proof (elim disjE conjE)
      assume "i = Suc (requestId s)" "q = nextPromise s"
      then show ?thesis using b unfolding p by simp
    next
      assume old: "timers s u = Some (d, RequestTimeout i q)"
      from timers_ok_bounds [OF T old] have "i \<noteq> Suc (requestId s)" by simp
      then have "pendingRequests s i = Some q'" using b unfolding p by simp
      from timers_ok_id [OF T old this] show ?thesis .
    qed
  qed
qed


lemma inv_shrink:
  assumes I: "inv s"
    and pe: "\<And>i p. pendingRequests s' i = Some p \<Longrightarrow> pendingRequests s i = Some p"
    and te: "\<And>t d i p. timers s' t = Some (d, RequestTimeout i p) \<Longrightarrow>
               timers s t = Some (d, RequestTimeout i p)"
    and tf: "\<And>t x. timers s' t = Some x \<Longrightarrow> t < nextTimer s'"
    and sv: "\<And>i p t. pendingRequests s' i = Some p \<Longrightarrow>
               timers s t = Some (10000, RequestTimeout i p) \<Longrightarrow>
               timers s' t = Some (10000, RequestTimeout i p)"
    and r: "requestId s \<le> requestId s'" and n: "nextPromise s \<le> nextPromise s'"
    and su: "\<And>ev cb. subscriptions s' ev = Some cb \<Longrightarrow>
               ev = ''system_stats'' \<or> ev = ''alerts'' \<or> ev = ''logs''"
  shows "inv s'"
proof -
  from I have P: "pending_ok s" and T: "timers_ok s" by (simp_all add: inv_def)
  have "pending_ok s'" using P pe sv r n by (rule pending_ok_shrink)
  moreover have "timers_ok s'" using T pe te tf r n by (rule timers_ok_shrink)
  moreover have "subscriptions_ok s'" using su by (simp add: subscriptions_ok_def)
  ultimately show ?thesis by (simp add: inv_def)
qed

lemma inv_subscription:
  "inv s \<Longrightarrow> subscriptions s ev = Some cb \<Longrightarrow>
     ev = ''system_stats'' \<or> ev = ''alerts'' \<or> ev = ''logs''"
  by (simp add: inv_def subscriptions_ok_def)

lemma inv_timer_fresh: "inv s \<Longrightarrow> timers s t = Some x \<Longrightarrow> t < nextTimer s"
  by (simp add: inv_def timers_ok_fresh)

lemma inv_init: "inv (init ok)"
  by (simp add: inv_def init_def pending_ok_def timers_ok_def subscriptions_ok_def)

lemma inv_init_app: "inv (init_app ok thr)"
  by (simp add: inv_def init_def init_app_def pending_ok_def timers_ok_def subscriptions_ok_def)

text \<open>Fields the invariant does not read.\<close>

lemma inv_same:
  assumes "inv s"
    and "pendingRequests s' = pendingRequests s" and "timers s' = timers s"
    and "requestId s' = requestId s" and "nextPromise s' = nextPromise s"
    and "nextTimer s' = nextTimer s" and "subscriptions s' = subscriptions s"
  shows "inv s'"
  using assms by (simp add: inv_def pending_ok_def timers_ok_def subscriptions_ok_def)

lemma sendRequest_not_connected:
  "\<not> isConnected s \<Longrightarrow>
   sendRequest s m ps =
     (s\<lparr>nextPromise := nextPromise s + 1\<rparr>, [Reject (RequestPromise (nextPromise s)) NotConnected])"
  by (cases "ws s") (simp_all add: sendRequest_def isConnected_def Let_def)

lemma sendRequest_connected:
  "isConnected s \<Longrightarrow>
   sendRequest s m ps =
     (s\<lparr>nextPromise := nextPromise s + 1, requestId := requestId s + 1,
        pendingRequests := (pendingRequests s)(requestId s + 1 \<mapsto> nextPromise s),
        timers := (timers s)(nextTimer s \<mapsto>
           (10000, RequestTimeout (requestId s + 1) (nextPromise s))),
        nextTimer := nextTimer s + 1\<rparr>,
      [Send (the (ws s)) (request (requestId s + 1) m ps),
       SetTimeout (nextTimer s) 10000 (RequestTimeout (requestId s + 1) (nextPromise s))])"
  by (cases "ws s") (simp_all add: sendRequest_def isConnected_def Let_def)

lemma inv_sendRequest: assumes I: "inv s" shows "inv (fst (sendRequest s m ps))"
proof (cases "isConnected s")
  case False
  show ?thesis
    unfolding sendRequest_not_connected [OF False] fst_conv
    by (rule inv_shrink [OF I]) (simp_all add: inv_timer_fresh [OF I] inv_subscription [OF I])
next
  case True
  from I have P: "pending_ok s" and T: "timers_ok s" and S: "subscriptions_ok s"
    by (simp_all add: inv_def)
  show ?thesis
    unfolding sendRequest_connected [OF True] fst_conv inv_def
  proof (intro conjI)
    show "pending_ok (s\<lparr>nextPromise := nextPromise s + 1, requestId := requestId s + 1,
        pendingRequests := (pendingRequests s)(requestId s + 1 \<mapsto> nextPromise s),
        timers := (timers s)(nextTimer s \<mapsto>
           (10000, RequestTimeout (requestId s + 1) (nextPromise s))),
        nextTimer := nextTimer s + 1\<rparr>)"
      by (rule pending_ok_add [OF P T]) simp_all
    show "timers_ok (s\<lparr>nextPromise := nextPromise s + 1, requestId := requestId s + 1,
        pendingRequests := (pendingRequests s)(requestId s + 1 \<mapsto> nextPromise s),
        timers := (timers s)(nextTimer s \<mapsto>
           (10000, RequestTimeout (requestId s + 1) (nextPromise s))),
        nextTimer := nextTimer s + 1\<rparr>)"
      by (rule timers_ok_add [OF P T]) simp_all
    show "subscriptions_ok (s\<lparr>nextPromise := nextPromise s + 1, requestId := requestId s + 1,
        pendingRequests := (pendingRequests s)(requestId s + 1 \<mapsto> nextPromise s),
        timers := (timers s)(nextTimer s \<mapsto>
           (10000, RequestTimeout (requestId s + 1) (nextPromise s))),
        nextTimer := nextTimer s + 1\<rparr>)"
      using S by (simp add: subscriptions_ok_def)
  qed
qed

lemma inv_connect: "inv s \<Longrightarrow> inv (fst (connect s))"
  by (erule inv_same) (simp_all add: connect_def Let_def)

lemma inv_onopen: "inv s \<Longrightarrow> inv (fst (onopen (set_readyState s w st c) c))"
  by (erule inv_same) (simp_all add: onopen_def set_readyState_def)

lemma inv_handleReconnect: assumes I: "inv s" shows "inv (fst (handleReconnect s))"
proof (cases "reconnectAttempts s < maxReconnectAttempts s")
  case False
  then show ?thesis using I by (simp add: handleReconnect_def)
next
  case True
  have fresh: "timers s (nextTimer s) = None"
    using I by (simp add: inv_def timers_ok_next)
  have neq: "t \<noteq> nextTimer s" if "timers s t = Some x" for t x
    using that fresh by auto
  show ?thesis
    using True unfolding handleReconnect_def Let_def
    apply (simp only: if_True fst_conv)
    apply (rule inv_shrink [OF I])
    apply (simp_all add: inv_subscription [OF I] split: if_splits)
    using inv_timer_fresh [OF I] apply (simp add: less_Suc_eq)
    using neq apply blast
    done
qed

lemma inv_onclose: "inv s \<Longrightarrow> inv (fst (onclose (set_readyState s w st c)))"
proof -
  assume "inv s"
  then have "inv (set_readyState s w st c)"
    by (rule inv_same) (simp_all add: set_readyState_def)
  from inv_handleReconnect [OF this] show ?thesis
    by (simp add: onclose_def case_prod_beta)
qed

lemma inv_purge: assumes I: "inv s" shows "inv (s\<lparr>pendingRequests := (pendingRequests s)(i := None)\<rparr>)"
  by (rule inv_shrink [OF I])
    (simp_all add: inv_timer_fresh [OF I] inv_subscription [OF I] split: if_splits)

lemma inv_handleResponse: "inv s \<Longrightarrow> inv (fst (handleResponse s m))"
  by (simp add: handleResponse_def inv_purge split: option.splits)

lemma inv_handleMessage: "inv s \<Longrightarrow> inv (fst (handleMessage s data))"
  by (simp add: handleMessage_def case_prod_beta inv_handleResponse
      split: parsed.splits json.splits)



lemma inv_timer_request:
  assumes I: "inv s" and t: "timers s t = Some (d, RequestTimeout i p)"
  shows "inv (fst (requestTimeout (s\<lparr>timers := (timers s)(t := None)\<rparr>) i p))"
proof -
  have other: "u \<noteq> t" if "timers s u = Some (10000, RequestTimeout j q)" "j \<noteq> i" for u j q
    using that t by auto
  have gone: "pendingRequests s i = None \<Longrightarrow> pendingRequests s j = Some q \<Longrightarrow>
      timers s u = Some (10000, RequestTimeout j q) \<Longrightarrow> u \<noteq> t" for u j q
    using t by auto
  show ?thesis
  proof (cases "pendingRequests s i")
    case None
    then show ?thesis
      unfolding requestTimeout_def
      apply simp
      apply (rule inv_shrink [OF I])
      apply (simp_all add: inv_subscription [OF I] inv_timer_fresh [OF I] split: if_splits)
      using gone [OF None] apply blast
      done
  next
    case (Some q)
    then show ?thesis
      unfolding requestTimeout_def
      apply simp
      apply (rule inv_shrink [OF I])
      apply (simp_all add: inv_subscription [OF I] inv_timer_fresh [OF I] split: if_splits)
      using other apply blast
      done
  qed
qed

lemma inv_timer_reconnect:
  assumes I: "inv s" and t: "timers s t = Some (d, ReconnectTimer)"
  shows "inv (s\<lparr>timers := (timers s)(t := None)\<rparr>)"
proof -
  have other: "u \<noteq> t" if "timers s u = Some (10000, RequestTimeout j q)" for u j q
    using that t by auto
  show ?thesis
    apply (rule inv_shrink [OF I])
    apply (simp_all add: inv_subscription [OF I] inv_timer_fresh [OF I] split: if_splits)
    using other apply blast
    done
qed

lemma disconnect_fields:
  "pendingRequests (fst (disconnect s)) = Map.empty"
  "subscriptions (fst (disconnect s)) = Map.empty"
  "timers (fst (disconnect s)) =
     (case reconnectTimeout s of Some t \<Rightarrow> (timers s)(t := None) | None \<Rightarrow> timers s)"
  "reconnectTimeout (fst (disconnect s)) = None"
  "ws (fst (disconnect s)) = None"
  "requestId (fst (disconnect s)) = requestId s"
  "nextPromise (fst (disconnect s)) = nextPromise s"
  "nextTimer (fst (disconnect s)) = nextTimer s"
  "reconnectAttempts (fst (disconnect s)) = reconnectAttempts s"
  "maxReconnectAttempts (fst (disconnect s)) = maxReconnectAttempts s"
  by (simp_all add: disconnect_def Let_def split: option.splits)

lemma inv_disconnect: assumes I: "inv s" shows "inv (fst (disconnect s))"
  by (rule inv_shrink [OF I])
    (simp_all add: disconnect_fields inv_timer_fresh [OF I] split: option.splits if_splits)

lemma inv_subscribe:
  assumes I: "inv s" and ev: "ev = ''system_stats'' \<or> ev = ''alerts'' \<or> ev = ''logs''"
  shows "inv (s\<lparr>subscriptions := (subscriptions s)(ev \<mapsto> cb)\<rparr>)"
  by (rule inv_shrink [OF I])
    (simp_all add: ev inv_timer_fresh [OF I] inv_subscription [OF I] split: if_splits)

lemma inv_unsubscribe:
  assumes I: "inv s"
  shows "inv (s\<lparr>subscriptions := (subscriptions s)(ev := None)\<rparr>)"
  by (rule inv_shrink [OF I])
    (simp_all add: inv_timer_fresh [OF I] inv_subscription [OF I] split: if_splits)

lemma inv_step: assumes I: "inv s" shows "inv (fst (step s e))"
proof (cases e)
  case (SocketOpen w)
  then show ?thesis using I inv_onopen
    by (simp split: option.splits prod.splits readyState.splits)
next
  case (SocketMessage w data)
  then show ?thesis using I inv_handleMessage
    by (simp split: option.splits prod.splits readyState.splits)
next
  case (SocketError w)
  then show ?thesis using I
    by (simp add: onerror_def split: option.splits prod.splits readyState.splits)
next
  case (SocketClose w)
  then show ?thesis using I inv_onclose
    by (simp split: option.splits prod.splits readyState.splits)
next
  case (TimerFires t)
  show ?thesis
  proof (cases "timers s t")
    case None
    then show ?thesis using I TimerFires by simp
  next
    case (Some x)
    obtain d a where x: "x = (d, a)" by (cases x)
    show ?thesis
    proof (cases a)
      case ReconnectTimer
      then show ?thesis
        using TimerFires Some x inv_connect [OF inv_timer_reconnect [OF I, of t d]] by simp
    next
      case (RequestTimeout i p)
      then show ?thesis
        using TimerFires Some x inv_timer_request [OF I, of t d i p] by simp
    qed
  qed
qed (simp_all add: I inv_connect inv_disconnect inv_sendRequest inv_subscribe inv_unsubscribe
      getSystemStats_def getProcesses_def getLogs_def ping_def getServerInfo_def
      subscribeToSystemStats_def subscribeToAlerts_def subscribeToLogs_def
      unsubscribeFromSystemStats_def unsubscribeFromAlerts_def unsubscribeFromLogs_def)

lemma inv_run: "inv s \<Longrightarrow> inv (fst (run s es))"
proof (induction es arbitrary: s)
  case Nil
  then show ?case by simp
next
  case (Cons e es)
  from Cons.IH [OF inv_step [OF Cons.prems, of e]] show ?case
    by (simp add: case_prod_beta)
qed

section \<open>Calls while the socket is not open\<close>

lemma isConnected_frame [simp]:
  "isConnected (s\<lparr>subscriptions := x\<rparr>) = isConnected s"
  "isConnected (s\<lparr>nextPromise := n\<rparr>) = isConnected s"
  by (simp_all add: isConnected_def readyState_of_def split: option.splits)

text \<open>
  Claim C9. A call made while \<^verbatim>\<open>this.ws\<close> is null or its \<^verbatim>\<open>readyState\<close> is not
  \<^verbatim>\<open>OPEN\<close>: \<open>sendRequest\<close> rejects the promise it returns with the error
  \<^verbatim>\<open>WebSocket not connected\<close> and does nothing else. For the five methods under the source's
  heading \<^verbatim>\<open>API Methods\<close> the state after the call is the state before it, but for the host
  having made one more promise. For them and for the six subscription methods the only effect
  is that rejection (no frame is sent), no pending request is registered, the request id counter
  keeps its value and no timer is scheduled.
\<close>

theorem not_connected_rejects:
  assumes "\<not> isConnected s"
  shows "sendRequest s method params =
           (s\<lparr>nextPromise := nextPromise s + 1\<rparr>,
            [Reject (RequestPromise (nextPromise s)) NotConnected])
       \<and> (is_api_method e \<longrightarrow>
            step s e = (s\<lparr>nextPromise := nextPromise s + 1\<rparr>,
                        [Reject (RequestPromise (nextPromise s)) NotConnected]))
       \<and> (is_api_method e \<or> is_subscription_method e \<longrightarrow>
            snd (step s e) = [Reject (RequestPromise (nextPromise s)) NotConnected]
            \<and> pendingRequests (fst (step s e)) = pendingRequests s
            \<and> requestId (fst (step s e)) = requestId s
            \<and> timers (fst (step s e)) = timers s)"
proof -
  note R = sendRequest_not_connected
  have 1: "sendRequest s method params =
           (s\<lparr>nextPromise := nextPromise s + 1\<rparr>,
            [Reject (RequestPromise (nextPromise s)) NotConnected])"
    using assms by (rule R)
  have 2: "step s e = (s\<lparr>nextPromise := nextPromise s + 1\<rparr>,
                        [Reject (RequestPromise (nextPromise s)) NotConnected])"
    if "is_api_method e"
    using that assms
    by (cases e) (simp_all add: R getSystemStats_def getProcesses_def getLogs_def ping_def
        getServerInfo_def)
  have 3: "snd (step s e) = [Reject (RequestPromise (nextPromise s)) NotConnected]
            \<and> pendingRequests (fst (step s e)) = pendingRequests s
            \<and> requestId (fst (step s e)) = requestId s
            \<and> timers (fst (step s e)) = timers s"
    if "is_subscription_method e"
    using that assms
    by (cases e) (simp_all add: R subscribeToSystemStats_def subscribeToAlerts_def
        subscribeToLogs_def unsubscribeFromSystemStats_def unsubscribeFromAlerts_def
        unsubscribeFromLogs_def)
  show ?thesis using 1 2 3 by auto
qed

theorem not_connected_rejects_witness:
  "\<not> isConnected (init True) \<and> is_api_method CallPing
   \<and> step (init True) CallPing =
       ((init True)\<lparr>nextPromise := 1\<rparr>, [Reject (RequestPromise 0) NotConnected])
   \<and> pendingRequests (fst (step (init True) CallPing)) = Map.empty
   \<and> requestId (fst (step (init True) CallPing)) = 0"
proof -
  have h: "\<not> isConnected (init True)" by (simp add: isConnected_def init_def)
  from not_connected_rejects [OF h, of "''ping''" None CallPing] h
  show ?thesis by (simp add: init_def)
qed

section \<open>Frames without an id\<close>

lemma handleMessage_not_null:
  "message \<noteq> JNull \<Longrightarrow>
   handleMessage s (Parsed message) =
     (fst (handleResponse s message),
      snd (handleResponse s message) @ handleNotification (fst (handleResponse s message)) message)"
  by (cases message) (simp_all add: handleMessage_def case_prod_beta)

lemma callback_call_frame [simp]:
  "callback_call (s\<lparr>pendingRequests := x\<rparr>) ev cb v = callback_call s ev cb v"
  by (simp add: callback_call_def)

lemma callback_call_invokes [simp]:
  "filter is_invoke (callback_call s ev cb v) = [Invoke ev cb v]"
  "list_all (\<lambda>x. \<not> invokes ev' x) (callback_call s ev cb v) \<longleftrightarrow> ev' \<noteq> ev"
  by (simp_all add: callback_call_def)

lemma callback_call_quiet [simp]:
  "list_all (\<lambda>x. \<not> settles q x) (callback_call s ev cb v)"
  "list_all (\<lambda>x. \<not> is_settle x) (callback_call s ev cb v)"
  "list_all (\<lambda>x. \<not> is_new_socket x) (callback_call s ev cb v)"
  "List.map_filter sent_id (callback_call s ev cb v) = []"
  "reconnect_delays (callback_call s ev cb v) = []"
  by (simp_all add: callback_call_def List.map_filter_simps)

lemma handleNotification_frame [simp]:
  "handleNotification (s\<lparr>pendingRequests := x\<rparr>) m = handleNotification s m"
  by (simp add: handleNotification_def split: option.splits)


text \<open>
  Claim C5. A frame that parses to a value other than \<^verbatim>\<open>null\<close> and has no \<^verbatim>\<open>id\<close>, in a
  state the client can reach: if its \<^verbatim>\<open>method\<close> is the name of an event with a callback in
  \<^verbatim>\<open>subscriptions\<close>, the handler calls that callback with the frame's \<^verbatim>\<open>params\<close>; it does
  nothing else when the callback returns, and writes the \<^verbatim>\<open>catch\<close> clause's line to the
  console when the callback throws. If the \<^verbatim>\<open>method\<close> is not such a name, the handler has no
  effect at all: no callback, no line on the console, no promise settled. The state is the same
  after the handler in every case.
\<close>

theorem notification_routing:
  assumes "inv s" and "message \<noteq> JNull" and "js_get message ''id'' = None"
  shows "(\<forall>ev cb. js_get message ''method'' = Some (JStr ev) \<and> subscriptions s ev = Some cb \<longrightarrow>
            handleMessage s (Parsed message) =
              (s, Invoke ev cb (js_get message ''params'') #
                  (if callback_throws s cb (js_get message ''params'')
                   then [ConsoleError ''Error parsing message:''] else [])))
       \<and> ((\<forall>ev. js_get message ''method'' = Some (JStr ev) \<longrightarrow> subscriptions s ev = None) \<longrightarrow>
            handleMessage s (Parsed message) = (s, []))"
proof -
  have R: "handleResponse s message = (s, [])"
    using assms(3) by (simp add: handleResponse_def)
  have H: "handleMessage s (Parsed message) = (s, handleNotification s message)"
    using handleMessage_not_null [OF assms(2), of s] R by simp
  have 1: "handleNotification s message =
             Invoke ev cb (js_get message ''params'') #
             (if callback_throws s cb (js_get message ''params'')
              then [ConsoleError ''Error parsing message:''] else [])"
    if "js_get message ''method'' = Some (JStr ev)" "subscriptions s ev = Some cb" for ev cb
  proof -
    from inv_subscription [OF assms(1) that(2)] have "ev \<noteq> []" by auto
    then show ?thesis using that by (simp add: handleNotification_def callback_call_def)
  qed
  have 2: "handleNotification s message = []"
    if "\<forall>ev. js_get message ''method'' = Some (JStr ev) \<longrightarrow> subscriptions s ev = None"
  proof (cases "subscription_key (js_get message ''method'')")
    case None
    then show ?thesis by (simp add: handleNotification_def)
  next
    case (Some ev)
    then have "js_get message ''method'' = Some (JStr ev)"
      by (cases "js_get message ''method''" rule: subscription_key.cases) simp_all
    with that have "subscriptions s ev = None" by simp
    then show ?thesis using Some by (simp add: handleNotification_def)
  qed
  show ?thesis using H 1 2 by simp
qed

text \<open>
  An application whose callbacks throw when they are called without an argument, as the
  handler of \<^verbatim>\<open>alerts\<close> in \<^verbatim>\<open>App.tsx\<close> does, subscribed to \<^verbatim>\<open>system_stats\<close> with the
  callback 7: a notification with \<^verbatim>\<open>params\<close>, one without, and one of an event without a
  callback.
\<close>

theorem notification_routing_witness:
  "handleMessage (fst (run (init_app True (\<lambda>cb v. v = None)) [CallSubscribeToSystemStats 7]))
     (Parsed (JObj [(''jsonrpc'', JStr ''2.0''), (''method'', JStr ''system_stats''),
                    (''params'', JObj [(''uptime'', JNum 42)])]))
   = (fst (run (init_app True (\<lambda>cb v. v = None)) [CallSubscribeToSystemStats 7]),
      [Invoke ''system_stats'' 7 (Some (JObj [(''uptime'', JNum 42)]))])
   \<and> handleMessage (fst (run (init_app True (\<lambda>cb v. v = None)) [CallSubscribeToSystemStats 7]))
     (Parsed (JObj [(''jsonrpc'', JStr ''2.0''), (''method'', JStr ''system_stats'')]))
   = (fst (run (init_app True (\<lambda>cb v. v = None)) [CallSubscribeToSystemStats 7]),
      [Invoke ''system_stats'' 7 None, ConsoleError ''Error parsing message:''])
   \<and> handleMessage (fst (run (init_app True (\<lambda>cb v. v = None)) [CallSubscribeToSystemStats 7]))
     (Parsed (JObj [(''jsonrpc'', JStr ''2.0''), (''method'', JStr ''alerts''),
                    (''params'', JObj [])]))
   = (fst (run (init_app True (\<lambda>cb v. v = None)) [CallSubscribeToSystemStats 7]), [])"
proof -
  let ?s = "fst (run (init_app True (\<lambda>cb v. v = None)) [CallSubscribeToSystemStats 7])"
  let ?m = "JObj [(''jsonrpc'', JStr ''2.0''), (''method'', JStr ''system_stats''),
                  (''params'', JObj [(''uptime'', JNum 42)])]"
  let ?k = "JObj [(''jsonrpc'', JStr ''2.0''), (''method'', JStr ''system_stats'')]"
  let ?n = "JObj [(''jsonrpc'', JStr ''2.0''), (''method'', JStr ''alerts''),
                  (''params'', JObj [])]"
  have I: "inv ?s" by (rule inv_run [OF inv_init_app])
  have S: "subscriptions ?s ''system_stats'' = Some 7" "subscriptions ?s ''alerts'' = None"
    by (simp_all add: subscribeToSystemStats_def sendRequest_def init_def init_app_def Let_def)
  have T: "callback_throws ?s = (\<lambda>cb v. v = None)"
    by (simp add: subscribeToSystemStats_def sendRequest_def init_def init_app_def Let_def)
  have m: "?m \<noteq> JNull" "js_get ?m ''id'' = None"
    "js_get ?m ''method'' = Some (JStr ''system_stats'')"
    "js_get ?m ''params'' = Some (JObj [(''uptime'', JNum 42)])"
    by simp_all
  have k: "?k \<noteq> JNull" "js_get ?k ''id'' = None"
    "js_get ?k ''method'' = Some (JStr ''system_stats'')"
    "js_get ?k ''params'' = None"
    by simp_all
  have n: "?n \<noteq> JNull" "js_get ?n ''id'' = None" "js_get ?n ''method'' = Some (JStr ''alerts'')"
    by simp_all
  from notification_routing [OF I m(1) m(2)] S(1) m(3) m(4) T
  have 1: "handleMessage ?s (Parsed ?m)
           = (?s, [Invoke ''system_stats'' 7 (Some (JObj [(''uptime'', JNum 42)]))])"
    by simp
  from notification_routing [OF I k(1) k(2)] S(1) k(3) k(4) T
  have 2: "handleMessage ?s (Parsed ?k)
           = (?s, [Invoke ''system_stats'' 7 None, ConsoleError ''Error parsing message:''])"
    by simp
  from notification_routing [OF I n(1) n(2)] S(2) n(3)
  have 3: "handleMessage ?s (Parsed ?n) = (?s, [])"
    by simp
  from 1 2 3 show ?thesis by blast
qed

section \<open>Subscriptions\<close>

lemmas eval_defs = connect_def init_def init_app_def callback_call_def Let_def onopen_def onerror_def onclose_def
  handleReconnect_def set_readyState_def
  sendRequest_def isConnected_def readyState_of_def handleMessage_def
  handleResponse_def handleNotification_def request_def requestTimeout_def disconnect_def
  getSystemStats_def getProcesses_def getLogs_def ping_def getServerInfo_def
  subscribeToSystemStats_def subscribeToAlerts_def subscribeToLogs_def
  unsubscribeFromSystemStats_def unsubscribeFromAlerts_def unsubscribeFromLogs_def

lemmas method_defs = getSystemStats_def getProcesses_def getLogs_def ping_def getServerInfo_def
  subscribeToSystemStats_def subscribeToAlerts_def subscribeToLogs_def
  unsubscribeFromSystemStats_def unsubscribeFromAlerts_def unsubscribeFromLogs_def

lemma sendRequest_subscriptions [simp]:
  "subscriptions (fst (sendRequest s m ps)) = subscriptions s"
  by (cases "isConnected s") (simp_all add: sendRequest_connected sendRequest_not_connected)

lemma sendRequest_no_invoke [simp]: "list_all (\<lambda>x. \<not> invokes ev x) (snd (sendRequest s m ps))"
  by (cases "isConnected s") (simp_all add: sendRequest_connected sendRequest_not_connected)

lemma connect_subscriptions [simp]: "subscriptions (fst (connect s)) = subscriptions s"
  by (simp add: connect_def Let_def)

lemma connect_no_invoke [simp]: "list_all (\<lambda>x. \<not> invokes ev x) (snd (connect s))"
  by (simp add: connect_def Let_def)

lemma handleReconnect_subscriptions [simp]:
  "subscriptions (fst (handleReconnect s)) = subscriptions s"
  by (simp add: handleReconnect_def Let_def)

lemma handleReconnect_no_invoke [simp]:
  "list_all (\<lambda>x. \<not> invokes ev x) (snd (handleReconnect s))"
  by (simp add: handleReconnect_def Let_def)

lemma handleResponse_subscriptions [simp]:
  "subscriptions (fst (handleResponse s m)) = subscriptions s"
  by (simp add: handleResponse_def split: option.splits)

lemma handleResponse_no_invoke [simp]:
  "list_all (\<lambda>x. \<not> invokes ev x) (snd (handleResponse s m))"
  by (simp add: handleResponse_def split: option.splits)


lemma handleResponse_callback_throws [simp]:
  "callback_throws (fst (handleResponse s m)) = callback_throws s"
  by (simp add: handleResponse_def split: option.splits)

lemma handleNotification_unsubscribed:
  "subscriptions s ev = None \<Longrightarrow> list_all (\<lambda>x. \<not> invokes ev x) (handleNotification s m)"
  by (auto simp: handleNotification_def split: option.splits)

lemma handleMessage_subscriptions [simp]:
  "subscriptions (fst (handleMessage s data)) = subscriptions s"
  by (simp add: handleMessage_def case_prod_beta split: parsed.splits json.splits)

lemma handleMessage_unsubscribed:
  "subscriptions s ev = None \<Longrightarrow> list_all (\<lambda>x. \<not> invokes ev x) (snd (handleMessage s data))"
  by (simp add: handleMessage_def case_prod_beta handleNotification_unsubscribed
      split: parsed.splits json.splits)

lemma step_unsubscribed:
  assumes "subscriptions s ev = None" and "\<not> subscribes_to ev e"
  shows "subscriptions (fst (step s e)) ev = None
       \<and> list_all (\<lambda>x. \<not> invokes ev x) (snd (step s e))"
  using assms
  by (cases e)
    (simp_all add: method_defs disconnect_fields handleMessage_unsubscribed onopen_def
      onerror_def onclose_def set_readyState_def requestTimeout_def case_prod_beta
      disconnect_def Let_def
      split: option.splits readyState.splits timer_action.splits)

lemma run_unsubscribed:
  "subscriptions s ev = None \<Longrightarrow> list_all (\<lambda>e. \<not> subscribes_to ev e) es \<Longrightarrow>
   subscriptions (fst (run s es)) ev = None
   \<and> list_all (\<lambda>x. \<not> invokes ev x) (snd (run s es))"
proof (induction es arbitrary: s)
  case Nil
  then show ?case by simp
next
  case (Cons e es)
  from Cons.prems have e: "\<not> subscribes_to ev e" and es: "list_all (\<lambda>e. \<not> subscribes_to ev e) es"
    by simp_all
  from step_unsubscribed [OF Cons.prems(1) e]
  have 1: "subscriptions (fst (step s e)) ev = None"
    and 2: "list_all (\<lambda>x. \<not> invokes ev x) (snd (step s e))" by simp_all
  from Cons.IH [OF 1 es] 2 show ?case by (simp add: case_prod_beta)
qed

text \<open>
  Claim C7. After \<^verbatim>\<open>unsubscribeFromSystemStats()\<close> the key \<^verbatim>\<open>system_stats\<close> has no callback,
  and in every sequence of later events in which the application does not subscribe to that
  event again, no frame makes the client call a callback for it: neither the call itself nor
  any later event has an effect \<open>Invoke ''system_stats''\<close>. The same for
  \<^verbatim>\<open>unsubscribeFromAlerts()\<close> and \<^verbatim>\<open>unsubscribeFromLogs()\<close>. It does not matter whether the socket
  was open when the method was called.
\<close>

theorem unsubscribe_stops_delivery:
  "(list_all (\<lambda>e. \<not> subscribes_to ''system_stats'' e) es \<longrightarrow>
      subscriptions (fst (unsubscribeFromSystemStats s)) ''system_stats'' = None
    \<and> list_all (\<lambda>x. \<not> invokes ''system_stats'' x)
        (snd (unsubscribeFromSystemStats s) @ snd (run (fst (unsubscribeFromSystemStats s)) es)))
   \<and> (list_all (\<lambda>e. \<not> subscribes_to ''alerts'' e) es \<longrightarrow>
      subscriptions (fst (unsubscribeFromAlerts s)) ''alerts'' = None
    \<and> list_all (\<lambda>x. \<not> invokes ''alerts'' x)
        (snd (unsubscribeFromAlerts s) @ snd (run (fst (unsubscribeFromAlerts s)) es)))
   \<and> (list_all (\<lambda>e. \<not> subscribes_to ''logs'' e) es \<longrightarrow>
      subscriptions (fst (unsubscribeFromLogs s)) ''logs'' = None
    \<and> list_all (\<lambda>x. \<not> invokes ''logs'' x)
        (snd (unsubscribeFromLogs s) @ snd (run (fst (unsubscribeFromLogs s)) es)))"
proof (intro conjI impI)
  assume a: "list_all (\<lambda>e. \<not> subscribes_to ''system_stats'' e) es"
  show 1: "subscriptions (fst (unsubscribeFromSystemStats s)) ''system_stats'' = None"
    by (simp add: unsubscribeFromSystemStats_def)
  from run_unsubscribed [OF 1 a]
  show "list_all (\<lambda>x. \<not> invokes ''system_stats'' x)
        (snd (unsubscribeFromSystemStats s) @ snd (run (fst (unsubscribeFromSystemStats s)) es))"
    by (simp add: unsubscribeFromSystemStats_def)
next
  assume a: "list_all (\<lambda>e. \<not> subscribes_to ''alerts'' e) es"
  show 1: "subscriptions (fst (unsubscribeFromAlerts s)) ''alerts'' = None"
    by (simp add: unsubscribeFromAlerts_def)
  from run_unsubscribed [OF 1 a]
  show "list_all (\<lambda>x. \<not> invokes ''alerts'' x)
        (snd (unsubscribeFromAlerts s) @ snd (run (fst (unsubscribeFromAlerts s)) es))"
    by (simp add: unsubscribeFromAlerts_def)
next
  assume a: "list_all (\<lambda>e. \<not> subscribes_to ''logs'' e) es"
  show 1: "subscriptions (fst (unsubscribeFromLogs s)) ''logs'' = None"
    by (simp add: unsubscribeFromLogs_def)
  from run_unsubscribed [OF 1 a]
  show "list_all (\<lambda>x. \<not> invokes ''logs'' x)
        (snd (unsubscribeFromLogs s) @ snd (run (fst (unsubscribeFromLogs s)) es))"
    by (simp add: unsubscribeFromLogs_def)
qed


theorem unsubscribe_stops_delivery_witness:
  "list_all (\<lambda>x. \<not> invokes ''system_stats'' x)
     (snd (run (fst (unsubscribeFromSystemStats
                 (fst (run (init True) [CallConnect, SocketOpen 0, CallSubscribeToSystemStats 7]))))
        [SocketMessage 0 (Parsed (JObj [(''method'', JStr ''system_stats'')])),
         CallSubscribeToAlerts 8, CallGetSystemStats,
         SocketMessage 0 (Parsed (JObj [(''method'', JStr ''system_stats'')]))]))
   \<and> snd (step (fst (run (init True) [CallConnect, SocketOpen 0, CallSubscribeToSystemStats 7]))
          (SocketMessage 0 (Parsed (JObj [(''method'', JStr ''system_stats'')]))))
       = [Invoke ''system_stats'' 7 None]"
proof -
  let ?es = "[SocketMessage 0 (Parsed (JObj [(''method'', JStr ''system_stats'')])),
         CallSubscribeToAlerts 8, CallGetSystemStats,
         SocketMessage 0 (Parsed (JObj [(''method'', JStr ''system_stats'')]))]"
  have h: "list_all (\<lambda>e. \<not> subscribes_to ''system_stats'' e) ?es" by simp
  have "snd (step (fst (run (init True) [CallConnect, SocketOpen 0, CallSubscribeToSystemStats 7]))
          (SocketMessage 0 (Parsed (JObj [(''method'', JStr ''system_stats'')]))))
       = [Invoke ''system_stats'' 7 None]"
    by (simp add: eval_defs)
  moreover from unsubscribe_stops_delivery [of ?es
      "fst (run (init True) [CallConnect, SocketOpen 0, CallSubscribeToSystemStats 7])"] h
  have "list_all (\<lambda>x. \<not> invokes ''system_stats'' x)
     (snd (unsubscribeFromSystemStats
            (fst (run (init True) [CallConnect, SocketOpen 0, CallSubscribeToSystemStats 7])))
      @ snd (run (fst (unsubscribeFromSystemStats
                 (fst (run (init True) [CallConnect, SocketOpen 0, CallSubscribeToSystemStats 7]))))
        ?es))"
    by blast
  then have "list_all (\<lambda>x. \<not> invokes ''system_stats'' x)
     (snd (run (fst (unsubscribeFromSystemStats
                 (fst (run (init True) [CallConnect, SocketOpen 0, CallSubscribeToSystemStats 7]))))
        ?es))"
    by simp
  ultimately show ?thesis by blast
qed

lemma handleResponse_invokes [simp]: "filter is_invoke (snd (handleResponse s m)) = []"
  by (simp add: handleResponse_def split: option.splits)






section \<open>Request ids\<close>

lemma request_id [simp]: "pending_key (js_get (request i m ps) ''id'') = Some i"
  by (simp add: request_def)

lemma sent_id_request [simp]: "sent_id (Send w (request i m ps)) = Some i"
  by simp

lemma sendRequest_ids:
  "List.map_filter sent_id (snd (sendRequest s m ps)) =
     (if isConnected s then [Suc (requestId s)] else [])
   \<and> requestId (fst (sendRequest s m ps)) =
     (if isConnected s then Suc (requestId s) else requestId s)"
  by (cases "isConnected s")
    (simp_all add: sendRequest_connected sendRequest_not_connected List.map_filter_simps)

lemma handleMessage_ids:
  "List.map_filter sent_id (snd (handleMessage s data)) = []
   \<and> requestId (fst (handleMessage s data)) = requestId s"
  by (simp add: handleMessage_def handleResponse_def handleNotification_def
      List.map_filter_simps case_prod_beta
      split: parsed.splits json.splits option.splits)

lemma step_ids:
  "(List.map_filter sent_id (snd (step s e)) = []
      \<and> requestId (fst (step s e)) = requestId s)
   \<or> (List.map_filter sent_id (snd (step s e)) = [Suc (requestId s)]
      \<and> requestId (fst (step s e)) = Suc (requestId s))"
  by (cases e)
    (simp_all add: method_defs sendRequest_ids handleMessage_ids disconnect_fields
      connect_def onopen_def onerror_def onclose_def handleReconnect_def set_readyState_def
      requestTimeout_def Let_def List.map_filter_simps disconnect_def
      split: option.splits readyState.splits timer_action.splits)

lemma map_filter_append: "List.map_filter f (xs @ ys) = List.map_filter f xs @ List.map_filter f ys"
  by (simp add: List.map_filter_def)

lemma run_ids:
  "sorted_wrt (<) (List.map_filter sent_id (snd (run s es)))
   \<and> (\<forall>i \<in> set (List.map_filter sent_id (snd (run s es))).
         requestId s < i \<and> i \<le> requestId (fst (run s es)))
   \<and> requestId s \<le> requestId (fst (run s es))"
proof (induction es arbitrary: s)
  case Nil
  show ?case by (simp add: List.map_filter_simps)
next
  case (Cons e es)
  let ?s1 = "fst (step s e)"
  note IH = Cons.IH [of ?s1]
  from step_ids [of s e] show ?case
  proof (elim disjE conjE)
    assume "List.map_filter sent_id (snd (step s e)) = []" "requestId ?s1 = requestId s"
    then show ?thesis using IH by (simp add: case_prod_beta map_filter_append)
  next
    assume a: "List.map_filter sent_id (snd (step s e)) = [Suc (requestId s)]"
      "requestId ?s1 = Suc (requestId s)"
    have "\<forall>i \<in> set (List.map_filter sent_id (snd (run ?s1 es))). Suc (requestId s) < i"
      using IH a by simp
    then show ?thesis using IH a by (auto simp: case_prod_beta map_filter_append)
  qed
qed

text \<open>
  Claim C8. The ids of the requests the client sends, in the order it sends them, are strictly
  increasing: through any sequence of events, from any state, the list of ids written in the
  frames sent is strictly sorted and every id lies above the counter's value at the start. A
  request sent on an open socket takes the id \<open>requestId + 1\<close>. The counter is never reset, so
  this holds across reconnects too, not only within one transport session.
\<close>

theorem request_ids_increase:
  "sorted_wrt (<) (List.map_filter sent_id (snd (run s es)))
   \<and> (\<forall>i \<in> set (List.map_filter sent_id (snd (run s es))).
         requestId s < i \<and> i \<le> requestId (fst (run s es)))
   \<and> (isConnected s \<longrightarrow> List.map_filter sent_id (snd (sendRequest s method params))
         = [requestId s + 1])"
  using run_ids [of s es] sendRequest_ids [of s "method" "params"] by simp

theorem request_ids_increase_witness:
  "List.map_filter sent_id
     (snd (run (init True) [CallConnect, SocketOpen 0, CallPing, CallGetSystemStats,
        SocketClose 0, TimerFires 2, SocketOpen 1, CallGetServerInfo])) = [1, 2, 3]
   \<and> sorted_wrt (<) [1, 2, 3 :: nat]"
proof -
  let ?es = "[CallConnect, SocketOpen 0, CallPing, CallGetSystemStats,
        SocketClose 0, TimerFires 2, SocketOpen 1, CallGetServerInfo]"
  have e: "List.map_filter sent_id (snd (run (init True) ?es)) = [1, 2, 3]"
    by (simp add: eval_defs List.map_filter_simps)
  from request_ids_increase [of "init True" ?es] have
    "sorted_wrt (<) (List.map_filter sent_id (snd (run (init True) ?es)))" by blast
  then have "sorted_wrt (<) [1, 2, 3 :: nat]" unfolding e .
  with e show ?thesis by blast
qed

section \<open>Reconnecting\<close>

lemma reconnect_delays_append:
  "reconnect_delays (xs @ ys) = reconnect_delays xs @ reconnect_delays ys"
  by (induction xs rule: reconnect_delays.induct) simp_all

lemma sendRequest_backoff [simp]:
  "reconnect_delays (snd (sendRequest s m ps)) = []"
  "reconnectAttempts (fst (sendRequest s m ps)) = reconnectAttempts s"
  "maxReconnectAttempts (fst (sendRequest s m ps)) = maxReconnectAttempts s"
  by (cases "isConnected s"; simp add: sendRequest_connected sendRequest_not_connected)+

lemma handleMessage_backoff [simp]:
  "reconnect_delays (snd (handleMessage s data)) = []"
  "reconnectAttempts (fst (handleMessage s data)) = reconnectAttempts s"
  "maxReconnectAttempts (fst (handleMessage s data)) = maxReconnectAttempts s"
  by (simp_all add: handleMessage_def handleResponse_def handleNotification_def case_prod_beta
      split: parsed.splits json.splits option.splits)

lemma handleReconnect_backoff:
  "maxReconnectAttempts (fst (handleReconnect s)) = maxReconnectAttempts s"
  "reconnectAttempts s < maxReconnectAttempts s \<Longrightarrow>
     reconnect_delays (snd (handleReconnect s)) = [min (1000 * 2 ^ Suc (reconnectAttempts s)) 30000]
     \<and> reconnectAttempts (fst (handleReconnect s)) = Suc (reconnectAttempts s)"
  "\<not> reconnectAttempts s < maxReconnectAttempts s \<Longrightarrow>
     snd (handleReconnect s) = [ConsoleError ''Max reconnection attempts reached'']
     \<and> fst (handleReconnect s) = s"
  by (simp_all add: handleReconnect_def Let_def)

lemma step_backoff:
  assumes "\<not> is_open e"
  shows "maxReconnectAttempts (fst (step s e)) = maxReconnectAttempts s
       \<and> (reconnect_delays (snd (step s e)) = []
            \<and> reconnectAttempts (fst (step s e)) = reconnectAttempts s
          \<or> reconnectAttempts s < maxReconnectAttempts s
            \<and> reconnect_delays (snd (step s e))
                = [min (1000 * 2 ^ Suc (reconnectAttempts s)) 30000]
            \<and> reconnectAttempts (fst (step s e)) = Suc (reconnectAttempts s))"
proof (cases e)
  case (SocketClose w)
  show ?thesis
  proof (cases "reconnectAttempts s < maxReconnectAttempts s")
    case True
    then show ?thesis
      using SocketClose
      by (simp add: onclose_def handleReconnect_def set_readyState_def Let_def
          split: option.splits readyState.splits)
  next
    case False
    then show ?thesis
      using SocketClose
      by (simp add: onclose_def handleReconnect_def set_readyState_def Let_def
          split: option.splits readyState.splits)
  qed
qed (use assms in \<open>simp_all add: method_defs disconnect_fields connect_def onerror_def
      requestTimeout_def Let_def disconnect_def
      split: option.splits readyState.splits timer_action.splits\<close>)

lemma run_backoff:
  assumes "list_all (\<lambda>e. \<not> is_open e) es"
  shows "maxReconnectAttempts (fst (run s es)) = maxReconnectAttempts s
       \<and> reconnectAttempts s \<le> reconnectAttempts (fst (run s es))
       \<and> (reconnectAttempts s \<le> maxReconnectAttempts s \<longrightarrow>
            reconnectAttempts (fst (run s es)) \<le> maxReconnectAttempts s)
       \<and> reconnect_delays (snd (run s es))
           = map (\<lambda>k. min (1000 * 2 ^ k) 30000)
               [Suc (reconnectAttempts s) ..< Suc (reconnectAttempts (fst (run s es)))]"
  using assms
proof (induction es arbitrary: s)
  case Nil
  show ?case by simp
next
  case (Cons e es)
  let ?s1 = "fst (step s e)"
  from Cons.prems have e: "\<not> is_open e" and es: "list_all (\<lambda>e. \<not> is_open e) es" by simp_all
  note IH = Cons.IH [OF es, of ?s1]
  from step_backoff [OF e, of s] have m: "maxReconnectAttempts ?s1 = maxReconnectAttempts s"
    and c: "reconnect_delays (snd (step s e)) = []
            \<and> reconnectAttempts ?s1 = reconnectAttempts s
          \<or> reconnectAttempts s < maxReconnectAttempts s
            \<and> reconnect_delays (snd (step s e))
                = [min (1000 * 2 ^ Suc (reconnectAttempts s)) 30000]
            \<and> reconnectAttempts ?s1 = Suc (reconnectAttempts s)"
    by simp_all
  from c show ?case
  proof (elim disjE conjE)
    assume "reconnect_delays (snd (step s e)) = []" "reconnectAttempts ?s1 = reconnectAttempts s"
    then show ?thesis using IH m by (simp add: case_prod_beta reconnect_delays_append)
  next
    assume a: "reconnectAttempts s < maxReconnectAttempts s"
      "reconnect_delays (snd (step s e)) = [min (1000 * 2 ^ Suc (reconnectAttempts s)) 30000]"
      "reconnectAttempts ?s1 = Suc (reconnectAttempts s)"
    from IH a have le: "Suc (reconnectAttempts s) \<le> reconnectAttempts (fst (run ?s1 es))"
      by simp
    have u: "[Suc (reconnectAttempts s) ..< Suc (reconnectAttempts (fst (run ?s1 es)))]
          = Suc (reconnectAttempts s)
            # [Suc (Suc (reconnectAttempts s)) ..< Suc (reconnectAttempts (fst (run ?s1 es)))]"
      using le by (simp add: upt_conv_Cons)
    show ?thesis using IH m a le unfolding run.simps case_prod_beta Let_def fst_conv snd_conv
        reconnect_delays_append u
      by simp
  qed
qed


lemma backoff_first_five:
  "n \<le> 5 \<Longrightarrow> map (\<lambda>k. min (1000 * 2 ^ k) (30000::nat)) [Suc 0 ..< Suc n]
     = take n [2000, 4000, 8000, 16000, 30000]"
proof -
  assume "n \<le> 5"
  then consider "n = 0" | "n = 1" | "n = 2" | "n = 3" | "n = 4" | "n = 5" by linarith
  then show ?thesis
    by cases (simp_all add: upt_rec)
qed

text \<open>
  Claim C2, as the code has it. \<open>handleReconnect\<close> increments the attempt counter before it
  computes the delay, so the delay of the \<open>k\<close>-th reconnect scheduled since the last successful
  open is \<open>min (1000 * 2 ^ k) 30000\<close> milliseconds: through any sequence of events without an
  open, the delays scheduled are those of the attempts \<open>a + 1, \<dots>, a'\<close>, where \<open>a\<close> is the counter
  before and \<open>a'\<close> the counter after. From 0 and with the limit 5 they are a prefix of
  2 s, 4 s, 8 s, 16 s, 30 s, and there is no sixth. The counter goes up by one when a close of a
  socket schedules an attempt, and the open of a socket sets it to 0.
\<close>

theorem reconnect_delay_sequence:
  assumes "list_all (\<lambda>e. \<not> is_open e) es"
  shows "reconnect_delays (snd (run s es))
           = map (\<lambda>k. min (1000 * 2 ^ k) 30000)
               [Suc (reconnectAttempts s) ..< Suc (reconnectAttempts (fst (run s es)))]
       \<and> (reconnectAttempts s = 0 \<and> maxReconnectAttempts s = 5 \<longrightarrow>
            reconnectAttempts (fst (run s es)) \<le> 5
            \<and> reconnect_delays (snd (run s es))
                = take (reconnectAttempts (fst (run s es))) [2000, 4000, 8000, 16000, 30000])
       \<and> (sockets s w = Some (st, c) \<and> st \<noteq> CLOSED
            \<and> reconnectAttempts s < maxReconnectAttempts s \<longrightarrow>
            reconnect_delays (snd (step s (SocketClose w)))
               = [min (1000 * 2 ^ Suc (reconnectAttempts s)) 30000]
            \<and> reconnectAttempts (fst (step s (SocketClose w))) = Suc (reconnectAttempts s))
       \<and> (sockets s w = Some (CONNECTING, c) \<longrightarrow>
            reconnectAttempts (fst (step s (SocketOpen w))) = 0)"
proof -
  note R = run_backoff [OF assms, of s]
  from R have 1: "reconnect_delays (snd (run s es))
           = map (\<lambda>k. min (1000 * 2 ^ k) 30000)
               [Suc (reconnectAttempts s) ..< Suc (reconnectAttempts (fst (run s es)))]"
    by blast
  have 2: "reconnectAttempts (fst (run s es)) \<le> 5
            \<and> reconnect_delays (snd (run s es))
                = take (reconnectAttempts (fst (run s es))) [2000, 4000, 8000, 16000, 30000]"
    if "reconnectAttempts s = 0" "maxReconnectAttempts s = 5"
  proof -
    from R that have le: "reconnectAttempts (fst (run s es)) \<le> 5" by simp
    from 1 that(1) backoff_first_five [OF le] show ?thesis using le by simp
  qed
  have 3: "reconnect_delays (snd (step s (SocketClose w)))
               = [min (1000 * 2 ^ Suc (reconnectAttempts s)) 30000]
            \<and> reconnectAttempts (fst (step s (SocketClose w))) = Suc (reconnectAttempts s)"
    if "sockets s w = Some (st, c)" "st \<noteq> CLOSED" "reconnectAttempts s < maxReconnectAttempts s"
    using that
    by (cases st) (simp_all add: onclose_def handleReconnect_def set_readyState_def Let_def)
  have 4: "reconnectAttempts (fst (step s (SocketOpen w))) = 0"
    if "sockets s w = Some (CONNECTING, c)"
    using that by (simp add: onopen_def set_readyState_def)
  from 1 2 3 4 show ?thesis by blast
qed

theorem reconnect_delay_sequence_witness:
  "reconnect_delays (snd (run (fst (run (init True) [CallConnect, SocketOpen 0])) five_failures))
     = [2000, 4000, 8000, 16000, 30000]
   \<and> reconnectAttempts (fst (step (fst (run (init True) [CallConnect])) (SocketOpen 0))) = 0"
proof -
  let ?s = "fst (run (init True) [CallConnect, SocketOpen 0])"
  have h: "list_all (\<lambda>e. \<not> is_open e) five_failures" by (simp add: five_failures_def)
  have a: "reconnectAttempts ?s = 0" "maxReconnectAttempts ?s = 5"
    by (simp_all add: eval_defs)
  have n: "reconnectAttempts (fst (run ?s five_failures)) = 5"
    by (simp add: eval_defs five_failures_def)
  have o: "sockets (fst (run (init True) [CallConnect])) 0 = Some (CONNECTING, 0)"
    by (simp add: eval_defs)
  from reconnect_delay_sequence [OF h, of ?s] a
  have "reconnect_delays (snd (run ?s five_failures))
      = take (reconnectAttempts (fst (run ?s five_failures))) [2000, 4000, 8000, 16000, 30000]"
    by blast
  then have 1: "reconnect_delays (snd (run ?s five_failures)) = [2000, 4000, 8000, 16000, 30000]"
    unfolding n by simp
  from reconnect_delay_sequence [OF h, of "fst (run (init True) [CallConnect])" 0 _ 0] o
  have 2: "reconnectAttempts (fst (step (fst (run (init True) [CallConnect])) (SocketOpen 0))) = 0"
    by blast
  from 1 2 show ?thesis by blast
qed

text \<open>
  Claim C2 as the specification states it starts the sequence at 1 s, the value of
  \<open>min (base * 2 ^ attempt) cap\<close> at attempt 0. The first reconnect after a successful connection
  is scheduled after 2 s.
\<close>

theorem first_reconnect_delay_counterexample:
  "reconnect_delays (snd (run (init True) [CallConnect, SocketOpen 0, SocketClose 0])) = [2000]
   \<and> reconnect_delays (snd (run (init True) [CallConnect, SocketOpen 0, SocketClose 0]))
       \<noteq> [min (1000 * 2 ^ 0) 30000]"
  by (simp add: eval_defs)

lemma sendRequest_given_up [simp]: "given_up s \<Longrightarrow> given_up (fst (sendRequest s m ps))"
proof (cases "isConnected s")
  case True
  assume "given_up s"
  then show ?thesis
    unfolding sendRequest_connected [OF True] by (simp add: given_up_def)
next
  case False
  assume "given_up s"
  then show ?thesis
    unfolding sendRequest_not_connected [OF False] by (simp add: given_up_def)
qed

lemma given_up_subscriptions [simp]: "given_up (s\<lparr>subscriptions := x\<rparr>) = given_up s"
  by (simp add: given_up_def)

lemma sendRequest_no_new_socket [simp]:
  "list_all (\<lambda>x. \<not> is_new_socket x) (snd (sendRequest s m ps))"
  by (cases "isConnected s") (simp_all add: sendRequest_connected sendRequest_not_connected)

lemma handleMessage_given_up [simp]:
  "timers (fst (handleMessage s data)) = timers s"
  "list_all (\<lambda>x. \<not> is_new_socket x) (snd (handleMessage s data))"
  by (simp_all add: handleMessage_def handleResponse_def handleNotification_def case_prod_beta
      split: parsed.splits json.splits option.splits)

lemma step_given_up:
  assumes "given_up s" and "\<not> is_open e" and "\<not> is_call_connect e"
  shows "given_up (fst (step s e)) \<and> list_all (\<lambda>x. \<not> is_new_socket x) (snd (step s e))"
proof (cases e)
  case (TimerFires t)
  show ?thesis
  proof (cases "timers s t")
    case None
    then show ?thesis using assms TimerFires by simp
  next
    case (Some x)
    obtain d a where x: "x = (d, a)" by (cases x)
    from assms(1) Some x obtain i p where a: "a = RequestTimeout i p"
      by (cases a) (auto simp: given_up_def)
    show ?thesis using assms(1) TimerFires Some x a
      by (simp add: given_up_def requestTimeout_def)
  qed
next
  case CallDisconnect
  then show ?thesis using assms
    by (simp add: given_up_def disconnect_fields disconnect_def Let_def split: option.splits)
next
  case (SocketMessage w data)
  then show ?thesis using assms
    by (simp add: given_up_def split: option.splits readyState.splits)
next
  case (SocketError w)
  then show ?thesis using assms
    by (simp add: given_up_def onerror_def split: option.splits readyState.splits)
next
  case (SocketClose w)
  then show ?thesis using assms
    by (simp add: given_up_def onclose_def handleReconnect_def set_readyState_def
        split: option.splits readyState.splits)
qed (use assms in \<open>simp_all add: method_defs\<close>)

lemma run_given_up:
  "given_up s \<Longrightarrow> list_all (\<lambda>e. \<not> is_open e \<and> \<not> is_call_connect e) es \<Longrightarrow>
   given_up (fst (run s es)) \<and> list_all (\<lambda>x. \<not> is_new_socket x) (snd (run s es))"
proof (induction es arbitrary: s)
  case Nil
  then show ?case by simp
next
  case (Cons e es)
  from Cons.prems(2) have e: "\<not> is_open e" "\<not> is_call_connect e"
    and es: "list_all (\<lambda>e. \<not> is_open e \<and> \<not> is_call_connect e) es" by simp_all
  from step_given_up [OF Cons.prems(1) e]
  have 1: "given_up (fst (step s e))"
    and 2: "list_all (\<lambda>x. \<not> is_new_socket x) (snd (step s e))" by simp_all
  from Cons.IH [OF 1 es] 2 show ?case by (simp add: case_prod_beta)
qed

text \<open>
  Claim C4, as the code has it. When the counter has reached \<open>maxReconnectAttempts\<close>, then
  through any sequence of events without an open no reconnect is scheduled and the counter stays
  at the limit; if moreover no reconnect timer is still scheduled and the application does not
  call \<^verbatim>\<open>connect()\<close>, no socket is created. The close of a socket in that state has two effects,
  both on the console: the line \<^verbatim>\<open>Disconnected from MCP server\<close> and the error
  \<^verbatim>\<open>Max reconnection attempts reached\<close>. The open of a socket sets the counter to 0.
\<close>

theorem reconnect_gives_up:
  assumes "reconnectAttempts s = maxReconnectAttempts s"
    and "list_all (\<lambda>e. \<not> is_open e) es"
  shows "reconnect_delays (snd (run s es)) = []
       \<and> reconnectAttempts (fst (run s es)) = maxReconnectAttempts s
       \<and> (given_up s \<and> list_all (\<lambda>e. \<not> is_call_connect e) es \<longrightarrow>
            list_all (\<lambda>x. \<not> is_new_socket x) (snd (run s es)))
       \<and> (sockets s w = Some (st, c) \<and> st \<noteq> CLOSED \<longrightarrow>
            snd (step s (SocketClose w))
              = [ConsoleLog ''Disconnected from MCP server'',
                 ConsoleError ''Max reconnection attempts reached''])
       \<and> (sockets s w = Some (CONNECTING, c) \<longrightarrow>
            reconnectAttempts (fst (step s (SocketOpen w))) = 0)"
proof -
  note R = run_backoff [OF assms(2), of s]
  from R assms(1) have n: "reconnectAttempts (fst (run s es)) = maxReconnectAttempts s"
    by simp
  with R assms(1) have 1: "reconnect_delays (snd (run s es)) = []" by simp
  have 2: "list_all (\<lambda>x. \<not> is_new_socket x) (snd (run s es))"
    if "given_up s" "list_all (\<lambda>e. \<not> is_call_connect e) es"
  proof -
    from assms(2) that(2)
    have "list_all (\<lambda>e. \<not> is_open e \<and> \<not> is_call_connect e) es"
      by (induction es) simp_all
    from run_given_up [OF that(1) this] show ?thesis by simp
  qed
  have 3: "snd (step s (SocketClose w))
              = [ConsoleLog ''Disconnected from MCP server'',
                 ConsoleError ''Max reconnection attempts reached'']"
    if "sockets s w = Some (st, c)" "st \<noteq> CLOSED"
    using that assms(1)
    by (cases st) (simp_all add: onclose_def handleReconnect_def set_readyState_def Let_def)
  have 4: "reconnectAttempts (fst (step s (SocketOpen w))) = 0"
    if "sockets s w = Some (CONNECTING, c)"
    using that by (simp add: onopen_def set_readyState_def)
  from 1 n 2 3 4 show ?thesis by blast
qed


theorem reconnect_gives_up_witness:
  "reconnectAttempts (fst (run (fst (run (init True) [CallConnect, SocketOpen 0])) five_failures))
     = 5
   \<and> reconnect_delays
        (snd (run (fst (run (fst (run (init True) [CallConnect, SocketOpen 0])) five_failures))
           [SocketClose 5, CallPing, TimerFires 4, SocketClose 5])) = []
   \<and> list_all (\<lambda>x. \<not> is_new_socket x)
        (snd (run (fst (run (fst (run (init True) [CallConnect, SocketOpen 0])) five_failures))
           [SocketClose 5, CallPing, TimerFires 4, SocketClose 5]))
   \<and> snd (step (fst (run (fst (run (init True) [CallConnect, SocketOpen 0])) five_failures))
           (SocketClose 5))
       = [ConsoleLog ''Disconnected from MCP server'',
          ConsoleError ''Max reconnection attempts reached'']"
proof -
  let ?s = "fst (run (fst (run (init True) [CallConnect, SocketOpen 0])) five_failures)"
  let ?es = "[SocketClose 5, CallPing, TimerFires 4, SocketClose 5]"
  have a: "reconnectAttempts ?s = 5" "maxReconnectAttempts ?s = 5"
    by (simp_all add: eval_defs five_failures_def)
  then have h1: "reconnectAttempts ?s = maxReconnectAttempts ?s" by simp
  have h2: "list_all (\<lambda>e. \<not> is_open e) ?es" by simp
  have h3: "list_all (\<lambda>e. \<not> is_call_connect e) ?es" by simp
  have t: "timers ?s t \<noteq> Some (d, ReconnectTimer)" for t d
    by (simp add: eval_defs five_failures_def)
  with h1 have g: "given_up ?s" by (simp add: given_up_def)
  have w: "sockets ?s 5 = Some (CONNECTING, 5)" "CONNECTING \<noteq> CLOSED"
    by (simp_all add: eval_defs five_failures_def)
  from reconnect_gives_up [OF h1 h2, of 5 CONNECTING 5] g h3 w a(1) show ?thesis by blast
qed

text \<open>
  Claim C4 as the specification states it has the client surface a fatal connectivity error
  upward. After five failed reconnects the close of the last socket writes to the console and
  has no effect that reaches the application: no promise is rejected and no callback is called.
\<close>

theorem exhaustion_only_logged_counterexample:
  "snd (step (fst (run (fst (run (init True) [CallConnect, SocketOpen 0])) five_failures))
          (SocketClose 5))
     = [ConsoleLog ''Disconnected from MCP server'',
        ConsoleError ''Max reconnection attempts reached'']
   \<and> filter reaches_application
        (snd (step (fst (run (fst (run (init True) [CallConnect, SocketOpen 0])) five_failures))
           (SocketClose 5))) = []"
  by (simp add: eval_defs five_failures_def)

text \<open>
  Claim C3, as the code has it. The open of a socket, also of one made by the reconnect timer,
  sets the socket's state to open and the attempt counter to 0, writes a line to the console and
  resolves the promise of the \<^verbatim>\<open>connect()\<close> call that made the socket; it does nothing else. No
  event of a reconnect (the close, error or open of a socket, the reconnect timer firing) sends
  a frame, settles the promise of a request, or changes \<^verbatim>\<open>pendingRequests\<close>,
  \<^verbatim>\<open>subscriptions\<close> or the request id counter: the callbacks stay registered in the client and
  the requests stay pending.
\<close>

theorem reconnect_replays_nothing:
  "(sockets s w = Some (CONNECTING, c) \<longrightarrow>
      step s (SocketOpen w)
        = (s\<lparr>sockets := (sockets s)(w \<mapsto> (OPEN, c)), reconnectAttempts := 0\<rparr>,
           [ConsoleLog ''Connected to MCP server'', Resolve (ConnectPromise c) None]))
   \<and> (is_reconnect_event s e \<longrightarrow>
        pendingRequests (fst (step s e)) = pendingRequests s
      \<and> subscriptions (fst (step s e)) = subscriptions s
      \<and> requestId (fst (step s e)) = requestId s
      \<and> list_all (\<lambda>x. \<not> is_send x \<and> \<not> settles_request x) (snd (step s e)))"
proof (intro conjI impI)
  assume "sockets s w = Some (CONNECTING, c)"
  then show "step s (SocketOpen w)
        = (s\<lparr>sockets := (sockets s)(w \<mapsto> (OPEN, c)), reconnectAttempts := 0\<rparr>,
           [ConsoleLog ''Connected to MCP server'', Resolve (ConnectPromise c) None])"
    by (simp add: onopen_def set_readyState_def)
next
  assume r: "is_reconnect_event s e"
  then have "pendingRequests (fst (step s e)) = pendingRequests s
      \<and> subscriptions (fst (step s e)) = subscriptions s
      \<and> requestId (fst (step s e)) = requestId s
      \<and> list_all (\<lambda>x. \<not> is_send x \<and> \<not> settles_request x) (snd (step s e))"
    by (cases e)
      (simp_all add: onopen_def onerror_def onclose_def handleReconnect_def set_readyState_def
        connect_def Let_def
        split: option.splits readyState.splits timer_action.splits prod.splits)
  then show "pendingRequests (fst (step s e)) = pendingRequests s"
    and "subscriptions (fst (step s e)) = subscriptions s"
    and "requestId (fst (step s e)) = requestId s"
    and "list_all (\<lambda>x. \<not> is_send x \<and> \<not> settles_request x) (snd (step s e))"
    by simp_all
qed

theorem reconnect_replays_nothing_witness:
  "step (fst (run (init True)
           [CallConnect, SocketOpen 0, CallSubscribeToSystemStats 7, SocketClose 0, TimerFires 1]))
        (SocketOpen 1)
   = ((fst (run (init True)
           [CallConnect, SocketOpen 0, CallSubscribeToSystemStats 7, SocketClose 0, TimerFires 1]))
        \<lparr>sockets := (sockets (fst (run (init True)
           [CallConnect, SocketOpen 0, CallSubscribeToSystemStats 7, SocketClose 0, TimerFires 1])))
           (1 \<mapsto> (OPEN, 1)), reconnectAttempts := 0\<rparr>,
      [ConsoleLog ''Connected to MCP server'', Resolve (ConnectPromise 1) None])
   \<and> pendingRequests (fst (step (fst (run (init True)
           [CallConnect, SocketOpen 0, CallSubscribeToSystemStats 7, SocketClose 0, TimerFires 1]))
        (SocketOpen 1))) 1 = Some 0"
proof -
  let ?s = "fst (run (init True)
           [CallConnect, SocketOpen 0, CallSubscribeToSystemStats 7, SocketClose 0, TimerFires 1])"
  have h: "sockets ?s 1 = Some (CONNECTING, 1)" "is_reconnect_event ?s (SocketOpen 1)"
    "pendingRequests ?s 1 = Some 0"
    by (simp_all add: eval_defs)
  from reconnect_replays_nothing [of ?s 1 1 "SocketOpen 1"] h show ?thesis by simp
qed

text \<open>
  Claim C3 as the specification states it has the client replay the active subscriptions and
  reject the pending requests on a successful reconnect. With a subscription to
  \<^verbatim>\<open>system_stats\<close> active and its request 1 unanswered, the socket closes, the reconnect timer
  fires and the new socket opens: the client sends no frame and rejects no promise, and request
  1 is still pending on the new connection.
\<close>

theorem no_replay_no_reject_counterexample:
  "subscriptions (fst (run (init True)
      [CallConnect, SocketOpen 0, CallSubscribeToSystemStats 7])) ''system_stats'' = Some 7
   \<and> pendingRequests (fst (run (init True)
      [CallConnect, SocketOpen 0, CallSubscribeToSystemStats 7])) 1 = Some 0
   \<and> snd (run (fst (run (init True) [CallConnect, SocketOpen 0, CallSubscribeToSystemStats 7]))
         [SocketClose 0, TimerFires 1, SocketOpen 1])
      = [ConsoleLog ''Disconnected from MCP server'', ConsoleLogAttempt 2000 1 5,
         SetTimeout 1 2000 ReconnectTimer, NewWebSocket 1,
         ConsoleLog ''Connected to MCP server'', Resolve (ConnectPromise 1) None]
   \<and> isConnected (fst (run (fst (run (init True)
         [CallConnect, SocketOpen 0, CallSubscribeToSystemStats 7]))
         [SocketClose 0, TimerFires 1, SocketOpen 1]))
   \<and> pendingRequests (fst (run (fst (run (init True)
         [CallConnect, SocketOpen 0, CallSubscribeToSystemStats 7]))
         [SocketClose 0, TimerFires 1, SocketOpen 1])) 1 = Some 0"
  by (simp add: eval_defs)

section \<open>Requests and their responses\<close>

lemma retiredI:
  assumes "p < nextPromise s" "i \<le> requestId s" "pendingRequests s i = None"
    and "\<And>j. pendingRequests s j \<noteq> Some p"
    and "\<And>t d j. timers s t = Some (d, RequestTimeout j p) \<Longrightarrow>
           pendingRequests s j = None \<and> j \<le> requestId s"
  shows "retired i p s"
  unfolding retired_def using assms by simp

lemma retired_bounds: "retired i p s \<Longrightarrow> p < nextPromise s \<and> i \<le> requestId s"
  by (simp add: retired_def)

lemma retired_id: "retired i p s \<Longrightarrow> pendingRequests s i = None"
  by (simp add: retired_def)

lemma retired_promise: "retired i p s \<Longrightarrow> pendingRequests s j \<noteq> Some p"
  by (simp add: retired_def)

lemma retired_timer:
  "retired i p s \<Longrightarrow> timers s t = Some (d, RequestTimeout j p) \<Longrightarrow>
     pendingRequests s j = None \<and> j \<le> requestId s"
  by (simp add: retired_def)

text \<open>Requests and timers only go away, counters only grow.\<close>

lemma retired_shrink:
  assumes R: "retired i p s"
    and pe: "\<And>j q. pendingRequests s' j = Some q \<Longrightarrow> pendingRequests s j = Some q"
    and te: "\<And>t d j. timers s' t = Some (d, RequestTimeout j p) \<Longrightarrow>
               timers s t = Some (d, RequestTimeout j p)"
    and r: "requestId s \<le> requestId s'" and n: "nextPromise s \<le> nextPromise s'"
  shows "retired i p s'"
proof (rule retiredI)
  from retired_bounds [OF R] r n show "p < nextPromise s'" "i \<le> requestId s'" by simp_all
  show "pendingRequests s' i = None"
  proof (cases "pendingRequests s' i")
    case (Some q)
    from pe [OF Some] retired_id [OF R] show ?thesis by simp
  qed simp
  show "pendingRequests s' j \<noteq> Some p" for j
    using pe [of j p] retired_promise [OF R, of j] by blast
  show "pendingRequests s' j = None \<and> j \<le> requestId s'"
    if "timers s' t = Some (d, RequestTimeout j p)" for t d j
  proof -
    from retired_timer [OF R te [OF that]]
    have a: "pendingRequests s j = None" "j \<le> requestId s" by simp_all
    have "pendingRequests s' j = None"
    proof (cases "pendingRequests s' j")
      case (Some q)
      from pe [OF Some] a show ?thesis by simp
    qed simp
    then show ?thesis using a r by simp
  qed
qed

lemma retired_sendRequest:
  assumes R: "retired i p s"
  shows "retired i p (fst (sendRequest s m ps))
       \<and> list_all (\<lambda>x. \<not> settles (RequestPromise p) x) (snd (sendRequest s m ps))"
proof (cases "isConnected s")
  case False
  from retired_bounds [OF R] have "p \<noteq> nextPromise s" by simp
  moreover have "retired i p (s\<lparr>nextPromise := nextPromise s + 1\<rparr>)"
    by (rule retired_shrink [OF R]) simp_all
  ultimately show ?thesis
    unfolding sendRequest_not_connected [OF False] by simp
next
  case True
  let ?s' = "s\<lparr>nextPromise := nextPromise s + 1, requestId := requestId s + 1,
        pendingRequests := (pendingRequests s)(requestId s + 1 \<mapsto> nextPromise s),
        timers := (timers s)(nextTimer s \<mapsto>
           (10000, RequestTimeout (requestId s + 1) (nextPromise s))),
        nextTimer := nextTimer s + 1\<rparr>"
  from retired_bounds [OF R] have ne: "p \<noteq> nextPromise s" "i \<noteq> Suc (requestId s)" by simp_all
  have "retired i p ?s'"
  proof (rule retiredI)
    from retired_bounds [OF R] show "p < nextPromise ?s'" "i \<le> requestId ?s'" by simp_all
    show "pendingRequests ?s' i = None" using ne retired_id [OF R] by simp
    show "pendingRequests ?s' j \<noteq> Some p" for j
      using ne retired_promise [OF R, of j] by simp
    show "pendingRequests ?s' j = None \<and> j \<le> requestId ?s'"
      if "timers ?s' t = Some (d, RequestTimeout j p)" for t d j
    proof -
      from that ne have "timers s t = Some (d, RequestTimeout j p)"
        by (cases "t = nextTimer s") simp_all
      from retired_timer [OF R this] show ?thesis by auto
    qed
  qed
  then show ?thesis
    unfolding sendRequest_connected [OF True] by simp
qed

lemma retired_handleResponse:
  assumes R: "retired i p s"
  shows "retired i p (fst (handleResponse s m))
       \<and> list_all (\<lambda>x. \<not> settles (RequestPromise p) x) (snd (handleResponse s m))"
proof -
  have 1: "retired i p (s\<lparr>pendingRequests := (pendingRequests s)(j := None)\<rparr>)" for j
    by (rule retired_shrink [OF R]) (simp_all split: if_splits)
  have 2: "q \<noteq> p" if "pendingRequests s j = Some q" for j q
    using that retired_promise [OF R, of j] by auto
  show ?thesis
    using R 1 2 by (auto simp: handleResponse_def split: option.splits)
qed

lemma handleNotification_no_settle [simp]:
  "list_all (\<lambda>x. \<not> settles q x) (handleNotification s m)"
  "list_all (\<lambda>x. \<not> is_settle x) (handleNotification s m)"
  by (simp_all add: handleNotification_def split: option.splits)

lemma retired_handleMessage:
  assumes R: "retired i p s"
  shows "retired i p (fst (handleMessage s data))
       \<and> list_all (\<lambda>x. \<not> settles (RequestPromise p) x) (snd (handleMessage s data))"
  using R retired_handleResponse [OF R]
  by (simp add: handleMessage_def case_prod_beta split: parsed.splits json.splits)

lemma retired_timer_fires:
  assumes R: "retired i p s" and t: "timers s t = Some (d, RequestTimeout j q)"
  shows "retired i p (fst (requestTimeout (s\<lparr>timers := (timers s)(t := None)\<rparr>) j q))
       \<and> list_all (\<lambda>x. \<not> settles (RequestPromise p) x)
           (snd (requestTimeout (s\<lparr>timers := (timers s)(t := None)\<rparr>) j q))"
proof (cases "pendingRequests s j")
  case None
  have "retired i p (s\<lparr>timers := (timers s)(t := None)\<rparr>)"
    by (rule retired_shrink [OF R]) (simp_all split: if_splits)
  then show ?thesis using None by (simp add: requestTimeout_def)
next
  case (Some q')
  from retired_timer [OF R, of t d j] t Some have "q \<noteq> p" by auto
  moreover have "retired i p (s\<lparr>timers := (timers s)(t := None),
      pendingRequests := (pendingRequests s)(j := None)\<rparr>)"
    by (rule retired_shrink [OF R]) (simp_all split: if_splits)
  ultimately show ?thesis using Some by (simp add: requestTimeout_def)
qed

lemma retired_frame:
  assumes "retired i p s"
    and "pendingRequests s' = pendingRequests s" and "requestId s' = requestId s"
    and "nextPromise s' = nextPromise s"
    and "\<And>t d j. timers s' t = Some (d, RequestTimeout j p) \<Longrightarrow>
               timers s t = Some (d, RequestTimeout j p)"
  shows "retired i p s'"
  by (rule retired_shrink [OF assms(1)]) (simp_all add: assms)

lemma connect_fields [simp]:
  "pendingRequests (fst (connect s)) = pendingRequests s"
  "timers (fst (connect s)) = timers s"
  "requestId (fst (connect s)) = requestId s"
  "nextPromise (fst (connect s)) = nextPromise s"
  "list_all (\<lambda>x. \<not> settles (RequestPromise p) x) (snd (connect s))"
  by (simp_all add: connect_def Let_def)

lemma retired_subscriptions [simp]: "retired i p (s\<lparr>subscriptions := x\<rparr>) = retired i p s"
  by (simp add: retired_def)

lemma retired_step:
  assumes R: "retired i p s"
  shows "retired i p (fst (step s e))
       \<and> list_all (\<lambda>x. \<not> settles (RequestPromise p) x) (snd (step s e))"
proof (cases e)
  case CallConnect
  have "retired i p (fst (connect s))"
    by (rule retired_frame [OF R]) simp_all
  then show ?thesis using CallConnect by simp
next
  case CallDisconnect
  have "retired i p (fst (disconnect s))"
    by (rule retired_shrink [OF R])
      (simp_all add: disconnect_fields split: option.splits if_splits)
  then show ?thesis using CallDisconnect
    by (simp add: disconnect_def Let_def split: option.splits)
next
  case (SocketOpen w)
  have "retired i p (fst (onopen (set_readyState s w OPEN c) c))" for c
    by (rule retired_frame [OF R]) (simp_all add: onopen_def set_readyState_def)
  then show ?thesis using SocketOpen R
    by (simp add: onopen_def split: option.splits readyState.splits)
next
  case (SocketMessage w data)
  then show ?thesis using R retired_handleMessage [OF R]
    by (simp split: option.splits readyState.splits)
next
  case (SocketError w)
  then show ?thesis using R
    by (simp add: onerror_def split: option.splits readyState.splits)
next
  case (SocketClose w)
  have "retired i p (fst (onclose (set_readyState s w CLOSED c)))" for c
    by (rule retired_frame [OF R])
      (simp_all add: onclose_def handleReconnect_def set_readyState_def Let_def
        split: if_splits)
  then show ?thesis using SocketClose R
    by (simp add: onclose_def handleReconnect_def Let_def
        split: option.splits readyState.splits)
next
  case (TimerFires t)
  show ?thesis
  proof (cases "timers s t")
    case None
    then show ?thesis using R TimerFires by simp
  next
    case (Some x)
    obtain d a where x: "x = (d, a)" by (cases x)
    show ?thesis
    proof (cases a)
      case ReconnectTimer
      have "retired i p (fst (connect (s\<lparr>timers := (timers s)(t := None)\<rparr>)))"
        by (rule retired_frame [OF R]) (simp_all split: if_splits)
      then show ?thesis using TimerFires Some x ReconnectTimer
        by simp
    next
      case (RequestTimeout j q)
      then show ?thesis
        using TimerFires Some x retired_timer_fires [OF R, of t d j q] by simp
    qed
  qed
qed (use R in \<open>simp_all add: method_defs retired_sendRequest\<close>)


lemma retired_run:
  "retired i p s \<Longrightarrow>
   retired i p (fst (run s es))
   \<and> list_all (\<lambda>x. \<not> settles (RequestPromise p) x) (snd (run s es))"
proof (induction es arbitrary: s)
  case Nil
  then show ?case by simp
next
  case (Cons e es)
  from retired_step [OF Cons.prems, of e]
  have 1: "retired i p (fst (step s e))"
    and 2: "list_all (\<lambda>x. \<not> settles (RequestPromise p) x) (snd (step s e))" by simp_all
  from Cons.IH [OF 1] 2 show ?case by (simp add: case_prod_beta)
qed

text \<open>How a pending request gets retired: its entry is deleted, nothing is added.\<close>

lemma retired_after:
  assumes I: "inv s" and a: "pendingRequests s i = Some p"
    and gone: "pendingRequests s' i = None"
    and pe: "\<And>j q. pendingRequests s' j = Some q \<Longrightarrow> pendingRequests s j = Some q"
    and te: "\<And>t x. timers s' t = Some x \<Longrightarrow> timers s t = Some x"
    and r: "requestId s' = requestId s" and n: "nextPromise s' = nextPromise s"
  shows "retired i p s'"
proof (rule retiredI)
  from I have P: "pending_ok s" and T: "timers_ok s" by (simp_all add: inv_def)
  from pending_ok_bounds [OF P a] r n show "p < nextPromise s'" "i \<le> requestId s'" by simp_all
  show "pendingRequests s' i = None" by (rule gone)
  show "pendingRequests s' j \<noteq> Some p" for j
  proof
    assume b: "pendingRequests s' j = Some p"
    from pending_ok_inj [OF P a pe [OF b]] have "j = i" .
    with b gone show False by simp
  qed
  show "pendingRequests s' j = None \<and> j \<le> requestId s'"
    if "timers s' t = Some (d, RequestTimeout j p)" for t d j
  proof -
    from te [OF that] have t: "timers s t = Some (d, RequestTimeout j p)" .
    from timers_ok_promise [OF T t a] have "i = j" .
    with gone timers_ok_bounds [OF T t] r show ?thesis by simp
  qed
qed


















section \<open>disconnect\<close>

lemma disconnect_effects:
  "snd (disconnect s)
     = (case reconnectTimeout s of Some t \<Rightarrow> [ClearTimeout t] | None \<Rightarrow> [])
       @ (case ws s of Some w \<Rightarrow> [Close w] | None \<Rightarrow> [])"
  by (simp add: disconnect_def Let_def split: option.splits)

lemma disconnect_not_connected: "\<not> isConnected (fst (disconnect s))"
  by (simp add: isConnected_def disconnect_fields)

text \<open>
  What \<^verbatim>\<open>disconnect()\<close> does in every state the client can reach. After the call
  \<^verbatim>\<open>pendingRequests\<close> and \<^verbatim>\<open>subscriptions\<close> are empty, \<^verbatim>\<open>reconnectTimeout\<close> is null and
  \<^verbatim>\<open>isConnected()\<close> is false; the call settles no promise. The timer that
  \<^verbatim>\<open>reconnectTimeout\<close> held is cleared, and no reconnect timer is left when the field held
  every one there was. Every request that was pending is over: through every sequence of later
  events its promise is neither resolved nor rejected, and its own timeout, when it fires, has
  no effect.
\<close>

theorem disconnect_forgets_requests:
  assumes "inv s"
  shows "pendingRequests (fst (disconnect s)) = Map.empty
       \<and> subscriptions (fst (disconnect s)) = Map.empty
       \<and> reconnectTimeout (fst (disconnect s)) = None
       \<and> \<not> isConnected (fst (disconnect s))
       \<and> list_all (\<lambda>x. \<not> is_settle x) (snd (disconnect s))
       \<and> (reconnectTimeout s = Some t \<longrightarrow>
            timers (fst (disconnect s)) t = None \<and> ClearTimeout t \<in> set (snd (disconnect s)))
       \<and> ((\<forall>u d. timers s u = Some (d, ReconnectTimer) \<longrightarrow> reconnectTimeout s = Some u) \<longrightarrow>
            (\<forall>u d. timers (fst (disconnect s)) u \<noteq> Some (d, ReconnectTimer)))
       \<and> (pendingRequests s i = Some p \<longrightarrow>
            retired i p (fst (disconnect s))
          \<and> list_all (\<lambda>x. \<not> settles (RequestPromise p) x) (snd (run (fst (disconnect s)) es))
          \<and> (timers s u = Some (d, RequestTimeout i p) \<longrightarrow>
               snd (step (fst (disconnect s)) (TimerFires u)) = []))"
proof (intro conjI impI)
  show "pendingRequests (fst (disconnect s)) = Map.empty"
    and "subscriptions (fst (disconnect s)) = Map.empty"
    and "reconnectTimeout (fst (disconnect s)) = None"
    by (simp_all add: disconnect_fields)
  show "\<not> isConnected (fst (disconnect s))" by (rule disconnect_not_connected)
  show "list_all (\<lambda>x. \<not> is_settle x) (snd (disconnect s))"
    by (simp add: disconnect_effects split: option.splits)
  { assume "reconnectTimeout s = Some t"
    then show "timers (fst (disconnect s)) t = None"
      and "ClearTimeout t \<in> set (snd (disconnect s))"
      by (simp_all add: disconnect_fields disconnect_effects) }
  { assume "\<forall>u d. timers s u = Some (d, ReconnectTimer) \<longrightarrow> reconnectTimeout s = Some u"
    then show "\<forall>u d. timers (fst (disconnect s)) u \<noteq> Some (d, ReconnectTimer)"
      by (auto simp: disconnect_fields split: option.splits if_splits) }
  { assume a: "pendingRequests s i = Some p"
    show R: "retired i p (fst (disconnect s))"
      by (rule retired_after [OF assms a])
        (simp_all add: disconnect_fields split: option.splits if_splits)
    from retired_run [OF R, of es]
    show "list_all (\<lambda>x. \<not> settles (RequestPromise p) x) (snd (run (fst (disconnect s)) es))"
      by simp
    { assume "timers s u = Some (d, RequestTimeout i p)"
      then show "snd (step (fst (disconnect s)) (TimerFires u)) = []"
        by (simp add: disconnect_fields requestTimeout_def split: option.splits) } }
qed

theorem disconnect_forgets_requests_witness:
  "pendingRequests (fst (run (init True) [CallConnect, SocketOpen 0, CallPing])) 1 = Some 0
   \<and> list_all (\<lambda>x. \<not> settles (RequestPromise 0) x)
       (snd (run (fst (disconnect (fst (run (init True) [CallConnect, SocketOpen 0, CallPing]))))
          [SocketMessage 0 (Parsed (JObj [(''id'', JNum 1), (''result'', JNum 5)])),
           TimerFires 0, SocketClose 0, TimerFires 1, SocketOpen 1,
           SocketMessage 1 (Parsed (JObj [(''id'', JNum 1), (''result'', JNum 5)]))]))
   \<and> snd (step (fst (disconnect (fst (run (init True) [CallConnect, SocketOpen 0, CallPing]))))
          (TimerFires 0)) = []"
proof -
  let ?s = "fst (run (init True) [CallConnect, SocketOpen 0, CallPing])"
  let ?es = "[SocketMessage 0 (Parsed (JObj [(''id'', JNum 1), (''result'', JNum 5)])),
           TimerFires 0, SocketClose 0, TimerFires 1, SocketOpen 1,
           SocketMessage 1 (Parsed (JObj [(''id'', JNum 1), (''result'', JNum 5)]))]"
  have I: "inv ?s" by (rule inv_run [OF inv_init])
  have a: "pendingRequests ?s 1 = Some 0" "timers ?s 0 = Some (10000, RequestTimeout 1 0)"
    by (simp_all add: eval_defs)
  from disconnect_forgets_requests [OF I, of _ 1 0 ?es 0 10000] a show ?thesis by blast
qed

text \<open>
  Claim C10. After \<^verbatim>\<open>disconnect()\<close> any scheduled reconnect is to be cancelled and the
  client is to stay disconnected. \<^verbatim>\<open>disconnect()\<close> does call \<^verbatim>\<open>clearTimeout\<close>, on the one
  timer that \<^verbatim>\<open>reconnectTimeout\<close> holds, and two things get past it.

  \<^item> \<open>handleReconnect\<close> overwrites \<^verbatim>\<open>reconnectTimeout\<close> without clearing the timer it
    held. The application connects, disconnects and connects again (as a component mounted
    twice does); the first socket finishes closing, which schedules a reconnect, and the
    second socket closes, which schedules another. The first reconnect is scheduled before
    \<^verbatim>\<open>disconnect()\<close> and is still scheduled after it, and when it fires the client opens a
    new socket.
  \<^item> \<^verbatim>\<open>disconnect()\<close> leaves \<^verbatim>\<open>onclose\<close> on the socket it closes. The application connects,
    the socket opens, and the application disconnects; the \<^verbatim>\<open>close\<close> event of that socket
    then schedules a reconnect, the timer fires, the new socket opens, and
    \<^verbatim>\<open>isConnected()\<close> is true with no call of \<^verbatim>\<open>connect()\<close> after \<^verbatim>\<open>disconnect()\<close>.
\<close>

theorem disconnect_does_not_stop_reconnecting:
  "timers (fst (run (init True)
      [CallConnect, CallDisconnect, CallConnect, SocketOpen 1, SocketClose 0, SocketClose 1]))
      0 = Some (2000, ReconnectTimer)
   \<and> snd (step (fst (run (init True)
      [CallConnect, CallDisconnect, CallConnect, SocketOpen 1, SocketClose 0, SocketClose 1]))
      CallDisconnect) = [ClearTimeout 1, Close 1]
   \<and> timers (fst (run (init True)
      [CallConnect, CallDisconnect, CallConnect, SocketOpen 1, SocketClose 0, SocketClose 1,
       CallDisconnect])) 0 = Some (2000, ReconnectTimer)
   \<and> snd (step (fst (run (init True)
      [CallConnect, CallDisconnect, CallConnect, SocketOpen 1, SocketClose 0, SocketClose 1,
       CallDisconnect])) (TimerFires 0)) = [NewWebSocket 2]
   \<and> \<not> isConnected (fst (run (init True) [CallConnect, SocketOpen 0, CallDisconnect]))
   \<and> snd (run (fst (run (init True) [CallConnect, SocketOpen 0, CallDisconnect]))
        [SocketClose 0, TimerFires 0, SocketOpen 1])
     = [ConsoleLog ''Disconnected from MCP server'', ConsoleLogAttempt 2000 1 5,
        SetTimeout 0 2000 ReconnectTimer, NewWebSocket 1,
        ConsoleLog ''Connected to MCP server'', Resolve (ConnectPromise 1) None]
   \<and> isConnected (fst (run (init True)
        [CallConnect, SocketOpen 0, CallDisconnect, SocketClose 0, TimerFires 0, SocketOpen 1]))"
  by (simp add: eval_defs)

end
